theory Spec2Isabelle
  imports Complex_Main
begin

section \<open>Preliminaries\<close>

text \<open>
  A shallow embedding of \<^verbatim>\<open>src/src/sim.cpp\<close> (class \<^verbatim>\<open>Sim\<close>).

  Conventions of the embedding.
  \<^item> A C++ \<^verbatim>\<open>double\<close> is a \<open>real\<close>: rounding, infinities and NaN are not part of the
    model. Where the source's control flow depends on a non-finite value (the logarithm of
    zero in the linear driver) the value is an \<open>option\<close>, \<open>None\<close> standing for it.
  \<^item> A C++ \<^verbatim>\<open>int\<close> that counts or indexes is a \<open>nat\<close>; \<open>wf_sim\<close> bounds the grid so
    that no index computation leaves the range of a 32-bit \<^verbatim>\<open>int\<close>.
  \<^item> A heap array (\<^verbatim>\<open>new double[n]\<close>) is a \<open>real list\<close> of length \<open>n\<close>.
  \<^item> \<^verbatim>\<open>assert\<close>, \<^verbatim>\<open>exit(-1)\<close> and an access outside an array end the run: they are the
    \<open>Inl\<close> results of the operations.
  \<^item> The preprocessor symbol \<^verbatim>\<open>DDC\<close> is the boolean \<open>DDC\<close> of the build record.
\<close>

datatype error = AssertionFailed | CouldNotOpen string | OutOfBounds

text \<open>The constant \<^verbatim>\<open>M_PI\<close> of \<^verbatim>\<open><cmath>\<close>, a decimal literal.\<close>

definition M_PI :: real where
  "M_PI = 3.14159265358979323846"

text \<open>
  What the translation unit takes from headers that are not part of the sources at hand:
  the build switch \<^verbatim>\<open>DDC\<close>, the tolerance \<^verbatim>\<open>EPSILON\<close> (\<^verbatim>\<open>precision.hpp\<close>),
  \<^verbatim>\<open>strFromNumber\<close> (\<^verbatim>\<open>utility.hpp\<close>) and \<^verbatim>\<open>checkCFL\<close> (\<^verbatim>\<open>numerical_methods.hpp\<close>);
  the arguments of \<open>checkCFL\<close> are \<open>psi dz dx dt a nN nX nZ\<close>.
\<close>

record build =
  DDC :: bool
  EPSILON :: real
  strFromNumber :: "nat \<Rightarrow> string"
  checkCFL :: "real list \<Rightarrow> real \<Rightarrow> real \<Rightarrow> real \<Rightarrow> nat \<Rightarrow> nat \<Rightarrow> nat \<Rightarrow> nat \<Rightarrow> real"

subsection \<open>Numerical primitives\<close>

text \<open>
  Modelled from the spec: \<^verbatim>\<open>dfdz\<close> of \<^verbatim>\<open>numerical_methods.hpp\<close>, which is not among the
  sources: the centred first difference \<open>(F[i+1] - F[i-1]) / (2 dz)\<close>.
\<close>

definition dfdz :: "real list \<Rightarrow> nat \<Rightarrow> real \<Rightarrow> real" where
  "dfdz F i dz = (F ! (i + 1) - F ! (i - 1)) / (2 * dz)"

text \<open>
  Modelled from the spec: \<^verbatim>\<open>dfdz2\<close> of \<^verbatim>\<open>numerical_methods.hpp\<close>, which is not among the
  sources: the centred second difference \<open>(F[i+1] - 2 F[i] + F[i-1]) / dz\<^sup>2\<close>.
\<close>

definition dfdz2 :: "real list \<Rightarrow> nat \<Rightarrow> real \<Rightarrow> real" where
  "dfdz2 F i dz = (F ! (i + 1) - 2 * F ! i + F ! (i - 1)) / dz\<^sup>2"

text \<open>
  Modelled from the spec: \<^verbatim>\<open>adamsBashforth\<close> of \<^verbatim>\<open>numerical_methods.hpp\<close>, which is not
  among the sources: \<open>ab(dNew, dOld, f, dt) = dt ((1 + f/2) dNew - (f/2) dOld)\<close>.
\<close>

definition adamsBashforth :: "real \<Rightarrow> real \<Rightarrow> real \<Rightarrow> real \<Rightarrow> real" where
  "adamsBashforth dNew dOld f dt = dt * ((1 + f / 2) * dNew - (f / 2) * dOld)"

subsection \<open>The simulator object\<close>

record Sim =
  nZ :: nat
  nN :: nat
  dt :: real
  Ra :: real
  RaXi :: real
  tau :: real
  Pr :: real
  a :: nat
  timeBetweenSaves :: real
  modifydt :: bool
  current :: nat
  t :: real
  totalTime :: real
  saveFolder :: string
  icFile :: string
  nX :: nat
  dz :: real
  dx :: real
  oodz2 :: real
  kePrev :: real
  keCurrent :: real
  saveNumber :: nat
  KEsaveNumber :: nat
  tmpGrad :: int
  xiGrad :: int
  psi :: "real list"
  omg :: "real list"
  tmp :: "real list"
  xi :: "real list"
  dTmpdt :: "real list"
  dOmgdt :: "real list"
  dXidt :: "real list"

text \<open>
  A well-formed simulator: a grid with at least one interior row and one mode, a positive
  aspect ratio, arrays of the allocated sizes, \<open>current\<close> one of the two slots, and index
  arithmetic within a 32-bit \<^verbatim>\<open>int\<close>. The arrays of the second scalar exist in a
  \<^verbatim>\<open>DDC\<close> build only.
\<close>

definition wf_sim :: "build \<Rightarrow> Sim \<Rightarrow> bool" where
  "wf_sim b s \<longleftrightarrow>
     3 \<le> nZ s \<and> 1 \<le> nN s \<and> 0 < a s \<and> current s < 2 \<and>
     2 * nN s * nZ s < 2 ^ 31 \<and>
     length (psi s) = nN s * nZ s \<and>
     length (omg s) = nN s * nZ s \<and>
     length (tmp s) = nN s * nZ s \<and>
     length (dTmpdt s) = 2 * nN s * nZ s \<and>
     length (dOmgdt s) = 2 * nN s * nZ s \<and>
     (DDC b \<longrightarrow> length (xi s) = nN s * nZ s \<and> length (dXidt s) = 2 * nN s * nZ s)"

text \<open>
  \<^verbatim>\<open>Sim::init\<close>, called by the constructor on the member-initialised object: the derived
  constants and the zeroed arrays. \<open>tmpGrad\<close> and \<open>xiGrad\<close> are not set by the
  constructor; their indeterminate values are the arguments \<open>g\<close> and \<open>h\<close>. The arrays
  \<open>xi\<close> and \<open>dXidt\<close> exist in a \<^verbatim>\<open>DDC\<close> build only and are empty otherwise.
\<close>

definition init ::
  "build \<Rightarrow> nat \<Rightarrow> nat \<Rightarrow> real \<Rightarrow> real \<Rightarrow> real \<Rightarrow> nat \<Rightarrow> real \<Rightarrow> real \<Rightarrow> real \<Rightarrow> bool \<Rightarrow>
   nat \<Rightarrow> real \<Rightarrow> real \<Rightarrow> string \<Rightarrow> string \<Rightarrow> int \<Rightarrow> int \<Rightarrow> Sim" where
  "init b nZ' nN' dt' Ra' Pr' a' RaXi' tau' timeBetweenSaves' modifydt'
        current' t' totalTime' saveFolder' icFile' g h =
     (let nX' = nZ' * a';
          dz' = 1 / (real nZ' - 1);
          dx' = real a' / (real nX' - 1)
      in \<lparr> nZ = nZ', nN = nN', dt = dt', Ra = Ra', RaXi = RaXi', tau = tau', Pr = Pr',
           a = a', timeBetweenSaves = timeBetweenSaves', modifydt = modifydt',
           current = current', t = t', totalTime = totalTime',
           saveFolder = saveFolder', icFile = icFile',
           nX = nX', dz = dz', dx = dx', oodz2 = (1 / dz')\<^sup>2,
           kePrev = 0, keCurrent = 0, saveNumber = 0, KEsaveNumber = 0,
           tmpGrad = g, xiGrad = h,
           psi = replicate (nN' * nZ') 0,
           omg = replicate (nN' * nZ') 0,
           tmp = replicate (nN' * nZ') 0,
           xi = (if DDC b then replicate (nN' * nZ') 0 else []),
           dTmpdt = replicate (2 * nN' * nZ') 0,
           dOmgdt = replicate (2 * nN' * nZ') 0,
           dXidt = (if DDC b then replicate (2 * nN' * nZ') 0 else []) \<rparr>)"

subsection \<open>Loops that can abort\<close>

text \<open>
  \<^verbatim>\<open>for (x : xs) body\<close> where the body may end the run: the first \<open>Inl\<close> is the result.
\<close>

fun forM :: "'a list \<Rightarrow> ('a \<Rightarrow> 's \<Rightarrow> error + 's) \<Rightarrow> 's \<Rightarrow> error + 's" where
  "forM [] body s = Inr s"
| "forM (x # xs) body s =
     (case body x s of Inl e \<Rightarrow> Inl e | Inr s' \<Rightarrow> forM xs body s')"

definition assert :: "bool \<Rightarrow> 's \<Rightarrow> error + 's" where
  "assert c s = (if c then Inr s else Inl AssertionFailed)"

section \<open>The tendency kernels\<close>

subsection \<open>\<^verbatim>\<open>Sim::computeLinearDerivatives\<close>\<close>

text \<open>
  The assignments of the loop body at mode \<open>n\<close> and row \<open>k\<close>; \<open>di\<close> indexes the current
  slot of the tendency buffers and \<open>i\<close> the fields. The three buffers are distinct arrays and
  the fields are only read, so each buffer is followed through its own assignments, in the
  order of the source: \<open>T1\<close>, \<open>T2\<close> for \<^verbatim>\<open>dTmpdt\<close>, \<open>X1\<close>, \<open>X2\<close> for \<^verbatim>\<open>dXidt\<close>,
  \<open>O1\<close>, \<open>O2\<close> for \<^verbatim>\<open>dOmgdt\<close>.
\<close>

definition linear_assign :: "build \<Rightarrow> nat \<Rightarrow> nat \<Rightarrow> nat \<Rightarrow> Sim \<Rightarrow> Sim" where
  "linear_assign b linearSim n k s =
     (let di = current s * nZ s * nN s + n * nZ s + k;
          i = k + n * nZ s;
          T1 = (dTmpdt s)[di :=
                 dfdz2 (tmp s) i (dz s) - (real n * M_PI / real (a s))\<^sup>2 * tmp s ! i];
          X1 = (if DDC b
                then (dXidt s)[di :=
                       tau s * (dfdz2 (xi s) i (dz s) - (real n * M_PI / real (a s))\<^sup>2 * xi s ! i)]
                else dXidt s);
          X2 = (if linearSim = 1 \<and> DDC b
                then X1[di := X1 ! di +
                       - 1 * real_of_int (xiGrad s) * real n * M_PI / real (a s) * psi s ! i]
                else X1);
          T2 = (if linearSim = 1
                then T1[di := T1 ! di +
                       - 1 * real_of_int (tmpGrad s) * real n * M_PI / real (a s) * psi s ! i]
                else T1);
          O1 = (dOmgdt s)[di :=
                 Pr s * (dfdz2 (omg s) i (dz s) - (real n * M_PI / real (a s))\<^sup>2 * omg s ! i
                         + Ra s * real n * M_PI / real (a s) * tmp s ! i)];
          O2 = (if DDC b
                then O1[di := O1 ! di +
                       - RaXi s * tau s * Pr s * (real n * M_PI / real (a s)) * xi s ! i]
                else O1)
      in s\<lparr>dTmpdt := T2, dXidt := X2, dOmgdt := O2\<rparr>)"

text \<open>
  The loop body: the assignments, then \<^verbatim>\<open>assert(dOmgdt[nZ*0+k] < EPSILON)\<close>. The
  \<^verbatim>\<open>assert(!isnan(...))\<close> of the source cannot fail on reals and has no counterpart.
\<close>

definition linear_body :: "build \<Rightarrow> nat \<Rightarrow> nat \<Rightarrow> nat \<Rightarrow> Sim \<Rightarrow> error + Sim" where
  "linear_body b linearSim n k s =
     (let s' = linear_assign b linearSim n k s
      in assert (dOmgdt s' ! (nZ s' * 0 + k) < EPSILON b) s')"

text \<open>
  The two nested loops. The bounds \<^verbatim>\<open>nN\<close> and \<^verbatim>\<open>nZ\<close> are assigned by the constructor only,
  so the ranges are those of the state on entry.
\<close>

definition computeLinearDerivatives :: "build \<Rightarrow> nat \<Rightarrow> Sim \<Rightarrow> error + Sim" where
  "computeLinearDerivatives b linearSim s =
     forM [linearSim ..< nN s]
       (\<lambda>n. forM [1 ..< nZ s - 1] (\<lambda>k. linear_body b linearSim n k)) s"

subsection \<open>Closed forms of the linear pass\<close>

text \<open>
  The values the linear pass leaves in row \<open>k\<close> of mode \<open>n\<close> of the three buffers, as
  expressions in the fields on entry.
\<close>

definition linT :: "nat \<Rightarrow> Sim \<Rightarrow> nat \<Rightarrow> nat \<Rightarrow> real" where
  "linT l s n k = dfdz2 (tmp s) (k + n * nZ s) (dz s) - (real n * M_PI / real (a s))\<^sup>2 * tmp s ! (k + n * nZ s)
     + (if l = 1 then - 1 * real_of_int (tmpGrad s) * real n * M_PI / real (a s) * psi s ! (k + n * nZ s) else 0)"

definition linO :: "build \<Rightarrow> Sim \<Rightarrow> nat \<Rightarrow> nat \<Rightarrow> real" where
  "linO b s n k = Pr s * (dfdz2 (omg s) (k + n * nZ s) (dz s) - (real n * M_PI / real (a s))\<^sup>2 * omg s ! (k + n * nZ s)
                        + Ra s * real n * M_PI / real (a s) * tmp s ! (k + n * nZ s))
     + (if DDC b then - RaXi s * tau s * Pr s * (real n * M_PI / real (a s)) * xi s ! (k + n * nZ s) else 0)"

definition linX :: "nat \<Rightarrow> Sim \<Rightarrow> nat \<Rightarrow> nat \<Rightarrow> real" where
  "linX l s n k = tau s * (dfdz2 (xi s) (k + n * nZ s) (dz s) - (real n * M_PI / real (a s))\<^sup>2 * xi s ! (k + n * nZ s))
     + (if l = 1 then - 1 * real_of_int (xiGrad s) * real n * M_PI / real (a s) * psi s ! (k + n * nZ s) else 0)"

text \<open>The index of row \<open>k\<close> of mode \<open>n\<close> in the current slot of a tendency buffer.\<close>

definition di :: "Sim \<Rightarrow> nat \<times> nat \<Rightarrow> nat" where
  "di s = (\<lambda>(n, k). current s * nZ s * nN s + n * nZ s + k)"

text \<open>Everything of a simulator but its tendency buffers.\<close>

definition env :: "Sim \<Rightarrow> Sim" where
  "env s = s\<lparr>dTmpdt := [], dXidt := [], dOmgdt := []\<rparr>"

subsection \<open>Example objects\<close>

text \<open>A build without \<^verbatim>\<open>DDC\<close> and a simulator on the smallest grid with two modes.\<close>

definition ex_build :: build where
  "ex_build = \<lparr> DDC = False, EPSILON = 1 / 1000000, strFromNumber = (\<lambda>n. replicate n CHR ''i''),
                checkCFL = (\<lambda>p dz dx dt a nN nX nZ. 1 / 2) \<rparr>"

definition ex_sim :: Sim where
  "ex_sim = (init ex_build 3 2 (1 / 10) 1000 1 1 0 0 1 False 0 0 1 ''out/'' ''ic.dat'' (- 1) 1)
              \<lparr> tmp := [1, 1 / 2, 0, 0, 1, 0], psi := [0, 0, 0, 0, 2, 0] \<rparr>"

subsection \<open>\<^verbatim>\<open>Sim::computeNonLinearDerivatives\<close>\<close>

text \<open>
  Sequencing of steps that can end the run.
\<close>

definition bindE :: "error + 'a \<Rightarrow> ('a \<Rightarrow> error + 'b) \<Rightarrow> error + 'b" where
  "bindE m f = (case m of Inl e \<Rightarrow> Inl e | Inr x \<Rightarrow> f x)"

text \<open>
  The \<^verbatim>\<open>int\<close> arithmetic of the nonlinear pass. \<open>int32 i\<close> is the value a 32-bit two's complement \<^verbatim>\<open>int\<close> holds for the mathematical result \<open>i\<close>, and \<open>two_a s\<close> is the value of the expression \<^verbatim>\<open>2*a\<close>, an \<^verbatim>\<open>int\<close> product that is converted to \<^verbatim>\<open>double\<close> only as the divisor of \<^verbatim>\<open>M_PI\<close>: it is \<open>2 a\<close> as long as \<open>2 a < 2\<^sup>3\<^sup>1\<close>, and wraps around beyond.
\<close>

definition int32 :: "int \<Rightarrow> int" where
  "int32 i = (i + 2 ^ 31) mod 2 ^ 32 - 2 ^ 31"

definition two_a :: "Sim \<Rightarrow> real" where
  "two_a s = real_of_int (int32 (2 * int (a s)))"

text \<open>
  \<^verbatim>\<open>Sim::computeNonLinearDerivatives\<close>, first loop nest: the contribution of mode \<open>n\<close> to the mean mode, added at \<^verbatim>\<open>current*nZ*nN + 0*nN + k\<close>.
\<close>

definition mean_body :: "nat \<Rightarrow> nat \<Rightarrow> Sim \<Rightarrow> Sim" where
  "mean_body n k s =
     (let in' = n * nZ s + k;
          j = current s * nZ s * nN s + 0 * nN s + k
      in s\<lparr>dTmpdt := (dTmpdt s)[j := dTmpdt s ! j +
             - M_PI / two_a s * real n *
               (dfdz (psi s) in' (dz s) * tmp s ! in' + dfdz (tmp s) in' (dz s) * psi s ! in')]\<rparr>)"

text \<open>
  Second loop nest, first inner loop: the contribution from the mean temperature to mode \<open>n\<close>.
\<close>

definition from_mean_body :: "nat \<Rightarrow> nat \<Rightarrow> Sim \<Rightarrow> Sim" where
  "from_mean_body n k s =
     (let in' = n * nZ s + k;
          j = current s * nZ s * nN s + in'
      in s\<lparr>dTmpdt := (dTmpdt s)[j := dTmpdt s ! j +
             - real n * M_PI / real (a s) * psi s ! in' * dfdz (tmp s) (0 * nZ s + k) (dz s)]\<rparr>)"

text \<open>
  The body of the loop for the case \<^verbatim>\<open>n = n' + n''\<close>, where the source sets \<^verbatim>\<open>o = n - m\<close>: one addition to each of the two buffers, which are distinct arrays.
\<close>

definition triad_sum_body :: "nat \<Rightarrow> nat \<Rightarrow> nat \<Rightarrow> nat \<Rightarrow> Sim \<Rightarrow> Sim" where
  "triad_sum_body n m o' k s =
     (let im = nZ s * m + k;
          io = nZ s * o' + k;
          j = current s * nZ s * nN s + nZ s * n + k
      in s\<lparr>dTmpdt := (dTmpdt s)[j := dTmpdt s ! j +
             - M_PI / two_a s *
               (- real m * dfdz (psi s) io (dz s) * tmp s ! im
                + real o' * dfdz (tmp s) im (dz s) * psi s ! io)],
           dOmgdt := (dOmgdt s)[j := dOmgdt s ! j +
             - M_PI / two_a s *
               (- real m * dfdz (psi s) io (dz s) * omg s ! im
                + real o' * dfdz (omg s) im (dz s) * psi s ! io)]\<rparr>)"

text \<open>
  The body of the loop for the case \<^verbatim>\<open>n = n' - n''\<close>, where the source sets \<^verbatim>\<open>o = m - n\<close>.
\<close>

definition triad_diff_body :: "nat \<Rightarrow> nat \<Rightarrow> nat \<Rightarrow> nat \<Rightarrow> Sim \<Rightarrow> Sim" where
  "triad_diff_body n m o' k s =
     (let im = nZ s * m + k;
          io = nZ s * o' + k;
          j = current s * nZ s * nN s + nZ s * n + k
      in s\<lparr>dTmpdt := (dTmpdt s)[j := dTmpdt s ! j +
             - M_PI / two_a s *
               (real m * dfdz (psi s) io (dz s) * tmp s ! im
                + real o' * dfdz (tmp s) im (dz s) * psi s ! io)],
           dOmgdt := (dOmgdt s)[j := dOmgdt s ! j +
             - M_PI / two_a s *
               (real m * dfdz (psi s) io (dz s) * omg s ! im
                + real o' * dfdz (omg s) im (dz s) * psi s ! io)]\<rparr>)"

text \<open>
  The body of the loop for the case \<^verbatim>\<open>n = n'' - n'\<close>, where the source sets \<^verbatim>\<open>o = n + m\<close>: the addition to \<^verbatim>\<open>dOmgdt\<close> has the factor \<^verbatim>\<open>+M_PI/(2*a)\<close>.
\<close>

definition triad_rdiff_body :: "nat \<Rightarrow> nat \<Rightarrow> nat \<Rightarrow> nat \<Rightarrow> Sim \<Rightarrow> Sim" where
  "triad_rdiff_body n m o' k s =
     (let im = nZ s * m + k;
          io = nZ s * o' + k;
          j = current s * nZ s * nN s + nZ s * n + k
      in s\<lparr>dTmpdt := (dTmpdt s)[j := dTmpdt s ! j +
             - M_PI / two_a s *
               (real m * dfdz (psi s) io (dz s) * tmp s ! im
                + real o' * dfdz (tmp s) im (dz s) * psi s ! io)],
           dOmgdt := (dOmgdt s)[j := dOmgdt s ! j +
             M_PI / two_a s *
               (real m * dfdz (psi s) io (dz s) * omg s ! im
                + real o' * dfdz (omg s) im (dz s) * psi s ! io)]\<rparr>)"

text \<open>
  One iteration of a loop over \<open>m\<close>: the two \<^verbatim>\<open>assert\<close>s on \<open>o\<close> and \<open>m\<close>, then the loop over the interior rows.
\<close>

definition triad_loop ::
  "(nat \<Rightarrow> nat \<Rightarrow> nat \<Rightarrow> nat \<Rightarrow> Sim \<Rightarrow> Sim) \<Rightarrow> nat \<Rightarrow> nat \<Rightarrow> nat \<Rightarrow> Sim \<Rightarrow> error + Sim" where
  "triad_loop body n m o' s =
     bindE (assert (0 < o' \<and> o' < nN s) s) (\<lambda>s.
     bindE (assert (0 < m \<and> m < nN s) s) (\<lambda>s.
     Inr (fold (body n m o') [1 ..< nZ s - 1] s)))"

text \<open>
  The body of the second loop over \<open>n\<close>. The source runs its iterations in parallel (OpenMP); they write disjoint rows, and the model runs them in order.
\<close>

definition mode_body :: "nat \<Rightarrow> Sim \<Rightarrow> error + Sim" where
  "mode_body n s =
     bindE (Inr (fold (from_mean_body n) [1 ..< nZ s - 1] s)) (\<lambda>s.
     bindE (forM [1 ..< n] (\<lambda>m. triad_loop triad_sum_body n m (n - m)) s) (\<lambda>s.
     bindE (forM [n + 1 ..< nN s] (\<lambda>m. triad_loop triad_diff_body n m (m - n)) s) (\<lambda>s.
     forM [1 ..< nN s - n] (\<lambda>m. triad_loop triad_rdiff_body n m (n + m)) s)))"

text \<open>
  \<^verbatim>\<open>Sim::computeNonLinearDerivatives\<close>: the loop nest for the mean mode, which cannot fail, then the loop over the modes.
\<close>

definition computeNonLinearDerivatives :: "Sim \<Rightarrow> error + Sim" where
  "computeNonLinearDerivatives s =
     (let s1 = fold (\<lambda>n. fold (mean_body n) [1 ..< nZ s - 1]) [1 ..< nN s] s
      in forM [1 ..< nN s] mode_body s1)"

text \<open>
  A simulator with three modes on the smallest grid, with fields that make every term of the nonlinear pass at mode 1 visible.
\<close>

definition ex_sim2 :: Sim where
  "ex_sim2 = (init ex_build 3 3 (1 / 10) 1000 1 1 0 0 1 False 0 0 1 ''out/'' ''ic.dat'' (- 1) 1)
              \<lparr> tmp := [1, 1 / 2, 0, 0, 1, 2, 0, 3, 0], psi := [0, 0, 0, 0, 2, 0, 0, 5, 1],
                omg := [0, 0, 0, 0, 7, 0, 0, 11, 0] \<rparr>"

text \<open>
  The amounts the bodies of the nonlinear pass add, as expressions in the fields: to the mean mode, from the mean mode, and in a triad with sign \<open>sg\<close> on its first product, read from the field \<open>F\<close>.
\<close>

definition meanT :: "Sim \<Rightarrow> nat \<Rightarrow> nat \<Rightarrow> real" where
  "meanT s n k =
     - M_PI / two_a s * real n *
       (dfdz (psi s) (n * nZ s + k) (dz s) * tmp s ! (n * nZ s + k)
        + dfdz (tmp s) (n * nZ s + k) (dz s) * psi s ! (n * nZ s + k))"

definition fromMeanT :: "Sim \<Rightarrow> nat \<Rightarrow> nat \<Rightarrow> real" where
  "fromMeanT s n k =
     - real n * M_PI / real (a s) * psi s ! (n * nZ s + k) * dfdz (tmp s) k (dz s)"

definition triad_val :: "real list \<Rightarrow> real \<Rightarrow> Sim \<Rightarrow> nat \<Rightarrow> nat \<Rightarrow> nat \<Rightarrow> real" where
  "triad_val F sg s m o' k =
     - M_PI / two_a s *
       (sg * real m * dfdz (psi s) (nZ s * o' + k) (dz s) * F ! (nZ s * m + k)
        + real o' * dfdz F (nZ s * m + k) (dz s) * psi s ! (nZ s * o' + k))"

text \<open>
  \<open>accum_at g s dT dO\<close>: at \<open>s\<close> the transformer \<open>g\<close> changes nothing but the buffers \<^verbatim>\<open>dTmpdt\<close> and \<^verbatim>\<open>dOmgdt\<close>, to whose cell \<open>j\<close> it adds \<open>dT j\<close> and \<open>dO j\<close>.
\<close>

definition accum_at :: "(Sim \<Rightarrow> Sim) \<Rightarrow> Sim \<Rightarrow> (nat \<Rightarrow> real) \<Rightarrow> (nat \<Rightarrow> real) \<Rightarrow> bool" where
  "accum_at g s dT dO \<longleftrightarrow>
     env (g s) = env s \<and> dXidt (g s) = dXidt s \<and>
     dTmpdt (g s) = map (\<lambda>j. dTmpdt s ! j + dT j) [0 ..< length (dTmpdt s)] \<and>
     dOmgdt (g s) = map (\<lambda>j. dOmgdt s ! j + dO j) [0 ..< length (dOmgdt s)]"

text \<open>
  The amount that a loop over the interior rows of mode \<open>n\<close>, adding \<open>c k\<close> at row \<open>k\<close>, adds to cell \<open>j\<close>.
\<close>

definition row :: "Sim \<Rightarrow> nat \<Rightarrow> (nat \<Rightarrow> real) \<Rightarrow> nat \<Rightarrow> real" where
  "row s n c j = (\<Sum>k\<leftarrow>[1 ..< nZ s - 1]. if j = di s (n, k) then c k else 0)"

text \<open>
  The assignments of \<open>mode_body\<close> and of the whole pass, and the amounts they add to a cell, with the loop bounds of the simulator \<open>s\<close> on entry.
\<close>

definition mode_pure :: "Sim \<Rightarrow> nat \<Rightarrow> Sim \<Rightarrow> Sim" where
  "mode_pure s n u =
     fold (\<lambda>m. fold (triad_rdiff_body n m (n + m)) [1 ..< nZ s - 1]) [1 ..< nN s - n]
       (fold (\<lambda>m. fold (triad_diff_body n m (m - n)) [1 ..< nZ s - 1]) [n + 1 ..< nN s]
         (fold (\<lambda>m. fold (triad_sum_body n m (n - m)) [1 ..< nZ s - 1]) [1 ..< n]
           (fold (from_mean_body n) [1 ..< nZ s - 1] u)))"

definition modeT :: "Sim \<Rightarrow> nat \<Rightarrow> nat \<Rightarrow> real" where
  "modeT s n j =
     row s n (fromMeanT s n) j
     + (\<Sum>m\<leftarrow>[1 ..< n]. row s n (triad_val (tmp s) (- 1) s m (n - m)) j)
     + (\<Sum>m\<leftarrow>[n + 1 ..< nN s]. row s n (triad_val (tmp s) 1 s m (m - n)) j)
     + (\<Sum>m\<leftarrow>[1 ..< nN s - n]. row s n (triad_val (tmp s) 1 s m (n + m)) j)"

definition modeO :: "Sim \<Rightarrow> nat \<Rightarrow> nat \<Rightarrow> real" where
  "modeO s n j =
     row s n (\<lambda>k. 0) j
     + (\<Sum>m\<leftarrow>[1 ..< n]. row s n (triad_val (omg s) (- 1) s m (n - m)) j)
     + (\<Sum>m\<leftarrow>[n + 1 ..< nN s]. row s n (triad_val (omg s) 1 s m (m - n)) j)
     + (\<Sum>m\<leftarrow>[1 ..< nN s - n]. row s n (\<lambda>k. - triad_val (omg s) 1 s m (n + m) k) j)"

definition nonlinear_pure :: "Sim \<Rightarrow> Sim" where
  "nonlinear_pure s =
     fold (mode_pure s) [1 ..< nN s]
       (fold (\<lambda>n. fold (mean_body n) [1 ..< nZ s - 1]) [1 ..< nN s] s)"

text \<open>
  The amount a single addition of \<open>v\<close> at cell \<open>i\<close> adds to cell \<open>j\<close>.
\<close>

definition hit :: "nat \<Rightarrow> real \<Rightarrow> nat \<Rightarrow> real" where
  "hit i v j = (if j = i then v else 0)"

subsection \<open>The update, the Poisson solve and the integrator steps\<close>

text \<open>
  \<^verbatim>\<open>Sim::updateTmpAndOmg\<close>, the two assignments of the inner loop body: the Adams-Bashforth increments of \<open>T\<close> and \<open>\<omega>\<close> from the current and the other slot. The \<^verbatim>\<open>assert(!isnan(...))\<close> cannot fail on reals.
\<close>

definition update_assign :: "real \<Rightarrow> nat \<Rightarrow> nat \<Rightarrow> Sim \<Rightarrow> Sim" where
  "update_assign f n k s =
     (let i = n * nZ s + k;
          new = current s * nZ s * nN s + n * nZ s + k;
          old = ((current s + 1) mod 2) * nZ s * nN s + n * nZ s + k
      in s\<lparr>tmp := (tmp s)[i := tmp s ! i +
                adamsBashforth (dTmpdt s ! new) (dTmpdt s ! old) f (dt s)],
           omg := (omg s)[i := omg s ! i +
                adamsBashforth (dOmgdt s ! new) (dOmgdt s ! old) f (dt s)]\<rparr>)"

text \<open>
  The body of the loop over the modes: the loop over all rows, then the four boundary \<^verbatim>\<open>assert\<close>s, each of which compares a value with \<^verbatim>\<open>EPSILON\<close> from above only.
\<close>

definition update_mode :: "build \<Rightarrow> real \<Rightarrow> nat \<Rightarrow> Sim \<Rightarrow> error + Sim" where
  "update_mode b f n s =
     bindE (Inr (fold (update_assign f n) [0 ..< nZ s] s)) (\<lambda>s.
     bindE (if 0 < n then assert (tmp s ! (n * nZ s) < EPSILON b) s
            else assert (tmp s ! (n * nZ s) - 1 < EPSILON b) s) (\<lambda>s.
     bindE (assert (tmp s ! (n * nZ s + nZ s - 1) < EPSILON b) s) (\<lambda>s.
     bindE (assert (omg s ! (n * nZ s) < EPSILON b) s) (\<lambda>s.
     assert (omg s ! (n * nZ s + nZ s - 1) < EPSILON b) s))))"

text \<open>
  \<^verbatim>\<open>Sim::updateTmpAndOmg(f)\<close>.
\<close>

definition updateTmpAndOmg :: "build \<Rightarrow> real \<Rightarrow> Sim \<Rightarrow> error + Sim" where
  "updateTmpAndOmg b f s = forM [0 ..< nN s] (update_mode b f) s"

text \<open>
  \<^verbatim>\<open>Sim::updateXi\<close> (\<^verbatim>\<open>DDC\<close> builds): the same increment for the second scalar.
\<close>

definition updateXi_assign :: "real \<Rightarrow> nat \<Rightarrow> nat \<Rightarrow> Sim \<Rightarrow> Sim" where
  "updateXi_assign f n k s =
     (let i = n * nZ s + k;
          new = current s * nZ s * nN s + n * nZ s + k;
          old = ((current s + 1) mod 2) * nZ s * nN s + n * nZ s + k
      in s\<lparr>xi := (xi s)[i := xi s ! i +
                adamsBashforth (dXidt s ! new) (dXidt s ! old) f (dt s)]\<rparr>)"

definition updateXi :: "real \<Rightarrow> Sim \<Rightarrow> Sim" where
  "updateXi f s = fold (\<lambda>n. fold (updateXi_assign f n) [0 ..< nZ s]) [0 ..< nN s] s"

text \<open>
  Modelled from the spec: \<^verbatim>\<open>ThomasAlgorithm\<close>, whose source is not at hand. A row of the tridiagonal system is (sub-diagonal, diagonal, super-diagonal, right-hand side). For mode \<open>n\<close> the interior rows have \<open>oodz2\<close> off the diagonal and \<open>- (2 oodz2 + (n \<pi>/a)\<^sup>2)\<close> on it; the rows \<open>k = 0\<close> and \<open>k = nZ - 1\<close> are the Dirichlet equations \<open>\<psi> = 0\<close>. Forward elimination produces the modified diagonal and right-hand side of each row, back-substitution the solution. The elimination factors depend on the mode only; the source stores them at construction, the model recomputes them.
\<close>

type_synonym tri_row = "real \<times> real \<times> real \<times> real"

text \<open>
  Modelled from the spec: the rows of the system that \<^verbatim>\<open>ThomasAlgorithm\<close> solves for mode \<open>n\<close>.
\<close>

definition thomas_rows :: "Sim \<Rightarrow> nat \<Rightarrow> real list \<Rightarrow> tri_row list" where
  "thomas_rows s n rhs =
     map (\<lambda>k. if k = 0 \<or> k = nZ s - 1 then (0, 1, 0, 0)
              else (oodz2 s, - (2 * oodz2 s + (real n * M_PI / real (a s))\<^sup>2), oodz2 s, rhs ! k))
       [0 ..< nZ s]"

text \<open>
  Modelled from the spec: the forward elimination of \<^verbatim>\<open>ThomasAlgorithm\<close>; \<open>w\<close>, \<open>y\<close> and \<open>sp\<close> are the
  modified diagonal, the modified right-hand side and the super-diagonal of the previous row.
\<close>

fun thomas_eliminate :: "real \<Rightarrow> real \<Rightarrow> real \<Rightarrow> tri_row list \<Rightarrow> (real \<times> real \<times> real) list" where
  "thomas_eliminate w y sp [] = []"
| "thomas_eliminate w y sp ((sb, d, su, r) # rows) =
     (let l = sb / w; w' = d - l * sp; y' = r - l * y
      in (w', y', su) # thomas_eliminate w' y' su rows)"

text \<open>
  Modelled from the spec: the back-substitution of \<^verbatim>\<open>ThomasAlgorithm\<close>, from the last row up.
\<close>

fun thomas_backsub :: "(real \<times> real \<times> real) list \<Rightarrow> real list" where
  "thomas_backsub [] = []"
| "thomas_backsub [(w, y, sp)] = [y / w]"
| "thomas_backsub ((w, y, sp) # r # rs) =
     (let xs = thomas_backsub (r # rs) in (y - sp * hd xs) / w # xs)"

text \<open>
  Modelled from the spec: \<^verbatim>\<open>ThomasAlgorithm::solve\<close> for mode \<open>n\<close> and right-hand side \<open>rhs\<close> (a row of \<open>\<omega>\<close>): elimination from the first row on, then back-substitution.
\<close>

definition thomas_solve :: "Sim \<Rightarrow> nat \<Rightarrow> real list \<Rightarrow> real list" where
  "thomas_solve s n rhs =
     (case thomas_rows s n rhs of
        [] \<Rightarrow> []
      | (sb, d, su, r) # rows \<Rightarrow>
          thomas_backsub ((d, r, su) # thomas_eliminate d r su rows))"

text \<open>
  \<^verbatim>\<open>Sim::solveForPsi\<close>: the call \<^verbatim>\<open>thomasAlgorithm->solve(psi+nZ*n, omg+nZ*n, n)\<close> writes the solution into row \<open>n\<close> of \<open>\<psi>\<close>.
\<close>

definition solve_assign :: "nat \<Rightarrow> Sim \<Rightarrow> Sim" where
  "solve_assign n s =
     (let sol = thomas_solve s n (take (nZ s) (drop (nZ s * n) (omg s)))
      in s\<lparr>psi := fold (\<lambda>k ys. ys[nZ s * n + k := sol ! k]) [0 ..< nZ s] (psi s)\<rparr>)"

text \<open>
  The body of the loop over the modes: the solve and the two \<^verbatim>\<open>assert\<close>s that the boundary values are exactly zero.
\<close>

definition solve_mode :: "nat \<Rightarrow> Sim \<Rightarrow> error + Sim" where
  "solve_mode n s =
     bindE (Inr (solve_assign n s)) (\<lambda>s.
     bindE (assert (psi s ! (nZ s * n + 0) = 0) s) (\<lambda>s.
     assert (psi s ! (nZ s * n + nZ s - 1) = 0) s))"

text \<open>
  \<^verbatim>\<open>Sim::solveForPsi\<close>: the loop over the modes, then the loop of \<^verbatim>\<open>assert(psi[nZ*0+k] < EPSILON)\<close>.
\<close>

definition solveForPsi :: "build \<Rightarrow> Sim \<Rightarrow> error + Sim" where
  "solveForPsi b s =
     bindE (forM [0 ..< nN s] solve_mode s) (\<lambda>s.
     forM [0 ..< nZ s] (\<lambda>k s. assert (psi s ! (nZ s * 0 + k) < EPSILON b) s) s)"

text \<open>
  The end of an iteration of either driver: \<^verbatim>\<open>t += dt; ++current %= 2;\<close>.
\<close>

definition advance :: "Sim \<Rightarrow> Sim" where
  "advance s = s\<lparr>t := t s + dt s, current := (current s + 1) mod 2\<rparr>"

text \<open>
  The integrator step of \<^verbatim>\<open>Sim::runLinear\<close>: the last six statements of its loop body.
\<close>

definition linear_step :: "build \<Rightarrow> Sim \<Rightarrow> error + Sim" where
  "linear_step b s =
     bindE (computeLinearDerivatives b 1 s) (\<lambda>s.
     bindE (updateTmpAndOmg b 1 s) (\<lambda>s.
     bindE (Inr (if DDC b then updateXi 1 s else s)) (\<lambda>s.
     bindE (solveForPsi b s) (\<lambda>s.
     Inr (advance s)))))"

text \<open>
  The integrator step of \<^verbatim>\<open>Sim::runNonLinear\<close> for the factor \<open>f\<close>, without the assignment \<^verbatim>\<open>f = 1.0f\<close> to the driver's local variable.
\<close>

definition nonlinear_step :: "build \<Rightarrow> real \<Rightarrow> Sim \<Rightarrow> error + Sim" where
  "nonlinear_step b f s =
     bindE (computeLinearDerivatives b 0 s) (\<lambda>s.
     bindE (computeNonLinearDerivatives s) (\<lambda>s.
     bindE (updateTmpAndOmg b f s) (\<lambda>s.
     bindE (solveForPsi b s) (\<lambda>s.
     Inr (advance s)))))"

text \<open>
  Everything of a simulator but the fields \<open>T\<close> and \<open>\<omega>\<close>.
\<close>

definition envF :: "Sim \<Rightarrow> Sim" where
  "envF s = s\<lparr>tmp := [], omg := []\<rparr>"

text \<open>
  The cell of row \<open>k\<close> of mode \<open>n\<close> in a field, and the Adams-Bashforth increments of the update at that cell.
\<close>

definition ci :: "Sim \<Rightarrow> nat \<times> nat \<Rightarrow> nat" where
  "ci s = (\<lambda>(n, k). n * nZ s + k)"

definition abT :: "real \<Rightarrow> Sim \<Rightarrow> nat \<times> nat \<Rightarrow> real" where
  "abT f s = (\<lambda>(n, k). adamsBashforth
     (dTmpdt s ! (current s * nZ s * nN s + n * nZ s + k))
     (dTmpdt s ! (((current s + 1) mod 2) * nZ s * nN s + n * nZ s + k)) f (dt s))"

definition abO :: "real \<Rightarrow> Sim \<Rightarrow> nat \<times> nat \<Rightarrow> real" where
  "abO f s = (\<lambda>(n, k). adamsBashforth
     (dOmgdt s ! (current s * nZ s * nN s + n * nZ s + k))
     (dOmgdt s ! (((current s + 1) mod 2) * nZ s * nN s + n * nZ s + k)) f (dt s))"

text \<open>
  The assignments of the whole update, without its \<^verbatim>\<open>assert\<close>s.
\<close>

definition update_pure :: "real \<Rightarrow> Sim \<Rightarrow> Sim" where
  "update_pure f s =
     fold (\<lambda>(n, k). update_assign f n k) (List.product [0 ..< nN s] [0 ..< nZ s]) s"

text \<open>
  \<open>j\<close> is the cell of an interior row \<open>1 \<le> k \<le> nZ - 2\<close> of some mode in the current slot of a tendency buffer.
\<close>

definition interior_current :: "Sim \<Rightarrow> nat \<Rightarrow> bool" where
  "interior_current s j \<longleftrightarrow>
     (\<exists>n < nN s. \<exists>k < nZ s. 1 \<le> k \<and> k \<le> nZ s - 2 \<and>
        j = current s * nZ s * nN s + n * nZ s + k)"

text \<open>
  The rows \<open>k = 0\<close> and \<open>k = nZ - 1\<close> of every mode are zero in both slots of \<^verbatim>\<open>dTmpdt\<close> and \<^verbatim>\<open>dOmgdt\<close>.
\<close>

definition boundary_zero :: "Sim \<Rightarrow> bool" where
  "boundary_zero s \<longleftrightarrow>
     (\<forall>c < 2. \<forall>n < nN s.
        dTmpdt s ! (c * nZ s * nN s + n * nZ s) = 0 \<and>
        dTmpdt s ! (c * nZ s * nN s + n * nZ s + (nZ s - 1)) = 0 \<and>
        dOmgdt s ! (c * nZ s * nN s + n * nZ s) = 0 \<and>
        dOmgdt s ! (c * nZ s * nN s + n * nZ s + (nZ s - 1)) = 0)"

text \<open>
  The four \<^verbatim>\<open>assert\<close>s of the update, for every mode, on the values the update produces.
\<close>

definition update_asserts :: "build \<Rightarrow> real \<Rightarrow> Sim \<Rightarrow> bool" where
  "update_asserts b f s \<longleftrightarrow>
     (\<forall>n < nN s.
        (if 0 < n then tmp s ! (n * nZ s) + abT f s (n, 0) < EPSILON b
         else tmp s ! (n * nZ s) + abT f s (n, 0) - 1 < EPSILON b) \<and>
        tmp s ! (n * nZ s + (nZ s - 1)) + abT f s (n, nZ s - 1) < EPSILON b \<and>
        omg s ! (n * nZ s) + abO f s (n, 0) < EPSILON b \<and>
        omg s ! (n * nZ s + (nZ s - 1)) + abO f s (n, nZ s - 1) < EPSILON b)"

subsection \<open>Checkpoints and the kinetic-energy files\<close>

text \<open>
  The files the simulator reads and writes, as far as it can tell: the contents of the files that exist, as sequences of doubles, and which paths can be opened for writing.
\<close>

record filesys =
  files :: "string \<Rightarrow> real list option"
  can_write :: "string \<Rightarrow> bool"

text \<open>
  Writing a fresh file (\<^verbatim>\<open>std::ios::out\<close>) and appending to one (\<^verbatim>\<open>std::ios::app\<close>). A write to a stream that failed to open does nothing, and nothing in the stream library ends the run.
\<close>

definition write_file :: "filesys \<Rightarrow> string \<Rightarrow> real list \<Rightarrow> filesys" where
  "write_file fs name ds = fs\<lparr>files := (files fs)(name \<mapsto> ds)\<rparr>"

definition append_file :: "filesys \<Rightarrow> string \<Rightarrow> real list \<Rightarrow> filesys" where
  "append_file fs name ds =
     (if can_write fs name
      then fs\<lparr>files := (files fs)(name \<mapsto> (case files fs name of None \<Rightarrow> [] | Some old \<Rightarrow> old) @ ds)\<rparr>
      else fs)"

text \<open>
  The \<open>n\<close> doubles from offset \<open>off\<close> of an array: what \<^verbatim>\<open>file.write(ptr + off, sizeof(double) * n)\<close> writes.
\<close>

definition block :: "real list \<Rightarrow> nat \<Rightarrow> nat \<Rightarrow> real list" where
  "block xs off n = take n (drop off xs)"

text \<open>
  \<^verbatim>\<open>Sim::save\<close>: the file name takes the counter \<^verbatim>\<open>saveNumber++\<close>; the seven blocks are written when the stream is open, otherwise the diagnostic names \<^verbatim>\<open>saveFolder\<close> and \<^verbatim>\<open>exit(-1)\<close> ends the run.
\<close>

definition save :: "build \<Rightarrow> Sim \<times> filesys \<Rightarrow> error + Sim \<times> filesys" where
  "save b = (\<lambda>(s, fs).
     (let name = saveFolder s @ ''vars'' @ strFromNumber b (saveNumber s) @ ''.dat'';
          s = s\<lparr>saveNumber := saveNumber s + 1\<rparr>;
          N = nN s * nZ s
      in if can_write fs name
         then Inr (s, write_file fs name
                (block (tmp s) 0 N @ block (omg s) 0 N @ block (psi s) 0 N
                 @ block (dTmpdt s) (current s * nZ s * nN s) N
                 @ block (dTmpdt s) (((current s + 1) mod 2) * nZ s * nN s) N
                 @ block (dOmgdt s) (current s * nZ s * nN s) N
                 @ block (dOmgdt s) (((current s + 1) mod 2) * nZ s * nN s) N))
         else Inl (CouldNotOpen (saveFolder s))))"

text \<open>
  An input stream: the doubles not yet read, and whether every read so far was complete. \<^verbatim>\<open>file.read\<close> of \<open>n\<close> doubles into an array at offset \<open>off\<close> stores what is there; after a short read the stream reads nothing more.
\<close>

type_synonym istream = "real list \<times> bool"

definition read_block :: "real list \<Rightarrow> nat \<Rightarrow> nat \<Rightarrow> istream \<Rightarrow> real list \<times> istream" where
  "read_block dst off n = (\<lambda>(ds, good).
     if good
     then (let got = take n ds
           in (take off dst @ got @ drop (off + length got) dst, (drop n ds, n \<le> length ds)))
     else (dst, (ds, False)))"

text \<open>
  \<^verbatim>\<open>Sim::load\<close>, as \<^verbatim>\<open>runNonLinear\<close> calls it on the object's own \<open>T\<close>, \<open>\<omega>\<close>, \<open>\<psi>\<close>: seven reads in the order of \<^verbatim>\<open>save\<close>, or the diagnostic and \<^verbatim>\<open>exit(-1)\<close> when the file cannot be opened.
\<close>

definition load :: "string \<Rightarrow> Sim \<times> filesys \<Rightarrow> error + Sim \<times> filesys" where
  "load icFile' = (\<lambda>(s, fs).
     (case files fs icFile' of
        None \<Rightarrow> Inl (CouldNotOpen icFile')
      | Some ds \<Rightarrow>
          (let N = nN s * nZ s;
               (tmp', st) = read_block (tmp s) 0 N (ds, True);
               (omg', st) = read_block (omg s) 0 N st;
               (psi', st) = read_block (psi s) 0 N st;
               (dT1, st) = read_block (dTmpdt s) (current s * nZ s * nN s) N st;
               (dT2, st) = read_block dT1 (((current s + 1) mod 2) * nZ s * nN s) N st;
               (dO1, st) = read_block (dOmgdt s) (current s * nZ s * nN s) N st;
               (dO2, st) = read_block dO1 (((current s + 1) mod 2) * nZ s * nN s) N st
           in Inr (s\<lparr>tmp := tmp', omg := omg', psi := psi', dTmpdt := dT2, dOmgdt := dO2\<rparr>, fs))))"

text \<open>
  \<^verbatim>\<open>Sim::calcKineticEnergyForMode\<close> and \<^verbatim>\<open>Sim::calcKineticEnergy\<close>: the trapezoidal rule, accumulated in \<open>ke\<close> as in the source; the divisor \<^verbatim>\<open>4*(nZ-1)\<close> is an \<^verbatim>\<open>int\<close> product.
\<close>

definition calcKineticEnergyForMode :: "Sim \<Rightarrow> nat \<Rightarrow> real" where
  "calcKineticEnergyForMode s n =
     (let z0 = 0; z1 = 1;
          ke = 0;
          ke = ke + (real n * M_PI / real (a s) * psi s ! (n * nZ s + 0))\<^sup>2 / 2;
          ke = ke + (real n * M_PI / real (a s) * psi s ! (n * nZ s + (nZ s - 1)))\<^sup>2 / 2;
          ke = fold (\<lambda>k ke. ke + ((dfdz (psi s) (nZ s * n + k) (dz s))\<^sup>2
                                 + (real n * M_PI / real (a s) * psi s ! (nZ s * n + k))\<^sup>2))
                 [1 ..< nZ s - 1] ke
      in ke * ((z1 - z0) * real (a s) / real_of_int (int32 (4 * (int (nZ s) - 1)))))"

definition calcKineticEnergy :: "Sim \<Rightarrow> real" where
  "calcKineticEnergy s = fold (\<lambda>n ke. ke + calcKineticEnergyForMode s n) [0 ..< nN s] 0"

text \<open>
  \<^verbatim>\<open>Sim::saveKineticEnergy\<close>: the total is appended to one file and the energy of each mode \<open>n \<ge> 1\<close> to its own. No stream is tested, so the function has no failing result.
\<close>

definition saveKineticEnergy :: "build \<Rightarrow> Sim \<times> filesys \<Rightarrow> Sim \<times> filesys" where
  "saveKineticEnergy b = (\<lambda>(s, fs).
     (let ke = calcKineticEnergy s;
          s = s\<lparr>kePrev := keCurrent s\<rparr>;
          s = s\<lparr>keCurrent := ke\<rparr>;
          fs = append_file fs (saveFolder s @ ''KineticEnergy'' @ ''.dat'') [ke];
          fs = fold (\<lambda>n fs. append_file fs
                 (saveFolder s @ ''KineticEnergyMode'' @ strFromNumber b n @ ''.dat'')
                 [calcKineticEnergyForMode s n]) [1 ..< nN s] fs
      in (s, fs)))"

text \<open>
  The name of the next checkpoint file.
\<close>

definition vars_name :: "build \<Rightarrow> Sim \<Rightarrow> string" where
  "vars_name b s = saveFolder s @ ''vars'' @ strFromNumber b (saveNumber s) @ ''.dat''"

text \<open>
  A freshly constructed simulator on the grid of the first example, a file system with no files where every path can be written, and one where none can.
\<close>

definition ex_fresh :: Sim where
  "ex_fresh = init ex_build 3 2 (1 / 10) 1000 1 1 0 0 1 False 0 0 1 ''out/'' ''out/vars.dat'' (- 1) 1"

definition ex_fs :: filesys where
  "ex_fs = \<lparr> files = Map.empty, can_write = (\<lambda>name. True) \<rparr>"

definition ex_ro :: filesys where
  "ex_ro = \<lparr> files = Map.empty, can_write = (\<lambda>name. False) \<rparr>"

subsection \<open>Frames of the update and the solve\<close>

text \<open>
  Everything of a simulator but \<open>\<psi>\<close>; the solution the Poisson solve writes into row \<open>n\<close>; the assignments of the whole solve, without its \<^verbatim>\<open>assert\<close>s.
\<close>

definition envP :: "Sim \<Rightarrow> Sim" where
  "envP s = s\<lparr>psi := []\<rparr>"

definition sol :: "Sim \<Rightarrow> nat \<Rightarrow> real list" where
  "sol s n = thomas_solve s n (take (nZ s) (drop (nZ s * n) (omg s)))"

definition solve_pure :: "Sim \<Rightarrow> Sim" where
  "solve_pure s = fold solve_assign [0 ..< nN s] s"

text \<open>
  Everything of a simulator but the second scalar, and the grid and array sizes on which well-formedness depends.
\<close>

definition envX :: "Sim \<Rightarrow> Sim" where
  "envX s = s\<lparr>xi := []\<rparr>"

definition shape :: "Sim \<Rightarrow> nat list" where
  "shape s = [nZ s, nN s, a s, current s, length (psi s), length (omg s), length (tmp s),
              length (dTmpdt s), length (dOmgdt s), length (xi s), length (dXidt s)]"

text \<open>
  The part of an integrator step after the tendency kernels: from \<open>s1\<close> the update with factor \<open>f\<close>, the update of the second scalar when \<open>x\<close> holds, the Poisson solve and the advance of \<open>t\<close> and \<open>current\<close> complete and give \<open>s'\<close>.
\<close>

definition step_tail :: "build \<Rightarrow> real \<Rightarrow> bool \<Rightarrow> Sim \<Rightarrow> Sim \<Rightarrow> bool" where
  "step_tail b f x s1 s' \<longleftrightarrow>
     (\<exists>s2 s4. updateTmpAndOmg b f s1 = Inr s2 \<and>
        solveForPsi b (if x then updateXi 1 s2 else s2) = Inr s4 \<and> s' = advance s4)"

text \<open>
  The \<^verbatim>\<open>assert\<close>s of the last loop of \<^verbatim>\<open>solveForPsi\<close>, on the solution of the mean mode.
\<close>

definition solve_asserts :: "build \<Rightarrow> Sim \<Rightarrow> bool" where
  "solve_asserts b s \<longleftrightarrow> (\<forall>k < nZ s. sol s 0 ! k < EPSILON b)"

text \<open>
  The four boundary \<^verbatim>\<open>assert\<close>s of the update, on the fields as they are.
\<close>

definition bc_asserts :: "build \<Rightarrow> Sim \<Rightarrow> bool" where
  "bc_asserts b s \<longleftrightarrow>
     (\<forall>n < nN s.
        (if 0 < n then tmp s ! (n * nZ s) < EPSILON b else tmp s ! (n * nZ s) - 1 < EPSILON b) \<and>
        tmp s ! (n * nZ s + (nZ s - 1)) < EPSILON b \<and>
        omg s ! (n * nZ s) < EPSILON b \<and>
        omg s ! (n * nZ s + (nZ s - 1)) < EPSILON b)"

subsection \<open>The linear pass as a whole\<close>

text \<open>
  The assignments of the whole linear pass, without its \<^verbatim>\<open>assert\<close>.
\<close>

definition linear_pure :: "build \<Rightarrow> nat \<Rightarrow> Sim \<Rightarrow> Sim" where
  "linear_pure b l s =
     fold (\<lambda>(n, k). linear_assign b l n k) (List.product [l ..< nN s] [1 ..< nZ s - 1]) s"

text \<open>
  The value that \<^verbatim>\<open>assert(dOmgdt[nZ*0+k] < EPSILON)\<close> reads in the loop body at row \<open>k\<close>. Cell \<open>k\<close> of \<^verbatim>\<open>dOmgdt\<close> is row \<open>k\<close> of mode 0 in slot 0: when slot 0 is current and the pass starts at mode 0, the pass has assigned it at mode 0, before or in the iteration of the \<^verbatim>\<open>assert\<close>; otherwise the pass never assigns it and it has its value on entry.
\<close>

definition linear_probe :: "build \<Rightarrow> nat \<Rightarrow> Sim \<Rightarrow> nat \<Rightarrow> real" where
  "linear_probe b l s k = (if current s = 0 \<and> l = 0 then linO b s 0 k else dOmgdt s ! k)"

text \<open>
  Every \<^verbatim>\<open>assert\<close> of the linear pass holds: the outer loop has an iteration and then each row passes, or the outer loop is empty.
\<close>

definition linear_asserts :: "build \<Rightarrow> nat \<Rightarrow> Sim \<Rightarrow> bool" where
  "linear_asserts b l s \<longleftrightarrow>
     (l < nN s \<longrightarrow> (\<forall>k \<in> set [1 ..< nZ s - 1]. linear_probe b l s k < EPSILON b))"

text \<open>
  A simulator with three modes and two interior rows, of aspect ratio 2.
\<close>

definition ex_grid :: Sim where
  "ex_grid = (init ex_build 4 3 (1 / 10) 1000 1 2 0 0 1 False 0 0 1 ''out/'' ''ic.dat'' (- 1) 1)
              \<lparr> tmp := [1, 1 / 2, 1 / 3, 0, 0, 1, 2, 0, 0, 3, 1, 0],
                omg := [0, 0, 0, 0, 0, 7, 1, 0, 0, 2, 5, 0],
                psi := [0, 0, 0, 0, 0, 2, 1, 0, 0, 1, 4, 0] \<rparr>"







subsection \<open>The nonlinear driver\<close>

text \<open>
  The local variables of \<^verbatim>\<open>Sim::runNonLinear\<close> together with the object and the files: the next due times of the checkpoint, of the kinetic-energy record and of the CFL check, and the factor \<open>f\<close> of the next update.
\<close>

record driver =
  simulator :: Sim
  disk :: filesys
  saveTime :: real
  KEsaveTime :: real
  CFLCheckTime :: real
  factor :: real

text \<open>
  The three conditional statements at the head of the loop body of \<^verbatim>\<open>Sim::runNonLinear\<close>, in the order of the source: the kinetic-energy record, the CFL check, which assigns \<open>f\<close>, and the checkpoint, whose \<^verbatim>\<open>save\<close> can end the run. The output to \<^verbatim>\<open>cout\<close> is not modelled.
\<close>

definition schedule_ke :: "build \<Rightarrow> driver \<Rightarrow> driver" where
  "schedule_ke b d =
     (if KEsaveTime d - t (simulator d) < EPSILON b
      then (case saveKineticEnergy b (simulator d, disk d) of
              (s, fs) \<Rightarrow> d\<lparr>simulator := s, disk := fs, KEsaveTime := KEsaveTime d + 1 / 10000\<rparr>)
      else d)"

definition schedule_cfl :: "build \<Rightarrow> driver \<Rightarrow> driver" where
  "schedule_cfl b d =
     (if CFLCheckTime d - t (simulator d) < EPSILON b
      then d\<lparr>CFLCheckTime := CFLCheckTime d + 10000 * dt (simulator d),
             factor := checkCFL b (psi (simulator d)) (dz (simulator d)) (dx (simulator d))
                         (dt (simulator d)) (a (simulator d)) (nN (simulator d))
                         (nX (simulator d)) (nZ (simulator d))\<rparr>
      else d)"

definition schedule_save :: "build \<Rightarrow> driver \<Rightarrow> error + driver" where
  "schedule_save b d =
     (if saveTime d - t (simulator d) < EPSILON b
      then (case save b (simulator d, disk d) of
              Inl e \<Rightarrow> Inl e
            | Inr (s, fs) \<Rightarrow>
                Inr (d\<lparr>saveTime := saveTime d + timeBetweenSaves (simulator d),
                       simulator := s, disk := fs\<rparr>))
      else Inr d)"

text \<open>
  The body of the loop of \<^verbatim>\<open>Sim::runNonLinear\<close>: the three conditional statements, then \<^verbatim>\<open>computeLinearDerivatives(0); computeNonLinearDerivatives(); updateTmpAndOmg(f); f=1.0f; solveForPsi(); t+=dt; ++current%=2;\<close>.
\<close>

definition nonlinear_iteration :: "build \<Rightarrow> driver \<Rightarrow> error + driver" where
  "nonlinear_iteration b d =
     bindE (schedule_save b (schedule_cfl b (schedule_ke b d))) (\<lambda>d.
     bindE (computeLinearDerivatives b 0 (simulator d)) (\<lambda>s.
     bindE (computeNonLinearDerivatives s) (\<lambda>s.
     bindE (updateTmpAndOmg b (factor d) s) (\<lambda>s.
     bindE (Inr (d\<lparr>factor := 1\<rparr>)) (\<lambda>d.
     bindE (solveForPsi b s) (\<lambda>s.
     Inr (d\<lparr>simulator := advance s\<rparr>)))))))"

text \<open>
  The loop of \<^verbatim>\<open>Sim::runNonLinear\<close>, \<^verbatim>\<open>while (totalTime-t>EPSILON)\<close>, which need not end (\<open>None\<close>), and the whole function: \<^verbatim>\<open>load\<close>, the initialisation of the local variables, the loop and the final \<^verbatim>\<open>save\<close>.
\<close>

partial_function (option) nonlinear_loop :: "build \<Rightarrow> driver \<Rightarrow> (error + driver) option" where
  "nonlinear_loop b d =
     (if totalTime (simulator d) - t (simulator d) > EPSILON b
      then (case nonlinear_iteration b d of
              Inl e \<Rightarrow> Some (Inl e)
            | Inr d' \<Rightarrow> nonlinear_loop b d')
      else Some (Inr d))"

definition runNonLinear :: "build \<Rightarrow> Sim \<times> filesys \<Rightarrow> (error + Sim \<times> filesys) option" where
  "runNonLinear b = (\<lambda>(s, fs).
     (case load (icFile s) (s, fs) of
        Inl e \<Rightarrow> Some (Inl e)
      | Inr (s, fs) \<Rightarrow>
          (case nonlinear_loop b
                  \<lparr> simulator = s\<lparr>current := 0, t := 0\<rparr>, disk = fs, saveTime = 0,
                    KEsaveTime = 0, CFLCheckTime = 0, factor = 1 \<rparr> of
             None \<Rightarrow> None
           | Some (Inl e) \<Rightarrow> Some (Inl e)
           | Some (Inr d) \<Rightarrow>
               (case save b (simulator d, disk d) of
                  Inl e \<Rightarrow> Some (Inl e)
                | Inr r \<Rightarrow> Some (Inr r)))))"

text \<open>
  Drivers for the example simulator at \<open>t = 0\<close>: one at the start of a run, where all three conditional statements are due, with a directory that can be written and with one that cannot, and one where nothing is due.
\<close>

definition ex_driver :: driver where
  "ex_driver = \<lparr> simulator = ex_sim, disk = ex_fs, saveTime = 0, KEsaveTime = 0,
                 CFLCheckTime = 0, factor = 1 \<rparr>"

definition ex_driver_ro :: driver where
  "ex_driver_ro = ex_driver\<lparr> disk := ex_ro \<rparr>"

definition ex_driver_idle :: driver where
  "ex_driver_idle = \<lparr> simulator = ex_sim, disk = ex_ro, saveTime = 1, KEsaveTime = 1,
                      CFLCheckTime = 1, factor = 1 \<rparr>"

subsection \<open>The linear driver\<close>

text \<open>
  The values of \<^verbatim>\<open>std::log(std::abs(x))\<close> and of differences of such values. Elsewhere a \<^verbatim>\<open>double\<close> is a real number; here the logarithm of zero is \<open>-\<infinity>\<close>, and the convergence test of the linear driver depends on what follows from it: \<open>(-\<infinity>) - (-\<infinity>)\<close> is not a number, and a comparison with an infinity or with a value that is not a number is false.
\<close>

datatype ext = Fin real | PInf | MInf | NaN

definition log_abs :: "real \<Rightarrow> ext" where
  "log_abs x = (if x = 0 then MInf else Fin (ln \<bar>x\<bar>))"

fun ext_sub :: "ext \<Rightarrow> ext \<Rightarrow> ext" where
  "ext_sub (Fin x) (Fin y) = Fin (x - y)"
| "ext_sub (Fin x) PInf = MInf"
| "ext_sub (Fin x) MInf = PInf"
| "ext_sub PInf (Fin y) = PInf"
| "ext_sub PInf MInf = PInf"
| "ext_sub PInf PInf = NaN"
| "ext_sub MInf (Fin y) = MInf"
| "ext_sub MInf PInf = MInf"
| "ext_sub MInf MInf = NaN"
| "ext_sub NaN y = NaN"
| "ext_sub x NaN = NaN"

text \<open>
  \<^verbatim>\<open>std::abs(x - y) < tolerance\<close>.
\<close>

definition within_tol :: "ext \<Rightarrow> ext \<Rightarrow> real \<Rightarrow> bool" where
  "within_tol x y tol = (case ext_sub x y of Fin d \<Rightarrow> \<bar>d\<bar> < tol | _ \<Rightarrow> False)"

text \<open>
  Reading and writing an element of an array of known size. An index outside the array has no defined behaviour in the source; here it ends the run with \<open>OutOfBounds\<close>.
\<close>

definition rd :: "real list \<Rightarrow> nat \<Rightarrow> error + real" where
  "rd xs i = (if i < length xs then Inr (xs ! i) else Inl OutOfBounds)"

definition wr :: "real list \<Rightarrow> nat \<Rightarrow> real \<Rightarrow> error + real list" where
  "wr xs i v = (if i < length xs then Inr (xs[i := v]) else Inl OutOfBounds)"

text \<open>
  The local variables of \<^verbatim>\<open>Sim::runLinear\<close> together with the object: the snapshot arrays, of \<^verbatim>\<open>nN\<close> elements each, the previous growth-rate estimates and the step counter, an \<^verbatim>\<open>int\<close>.
\<close>

record lin_state =
  lsim :: Sim
  tmpPrev :: "real list"
  xiPrev :: "real list"
  omgPrev :: "real list"
  psiPrev :: "real list"
  logTmpPrev :: ext
  logXiPrev :: ext
  logOmgPrev :: ext
  logPsiPrev :: ext
  steps :: int

text \<open>
  The initial conditions of \<^verbatim>\<open>Sim::runLinear\<close>: the assignments to \<^verbatim>\<open>tmpGrad\<close> and \<^verbatim>\<open>xiGrad\<close> (in a build without \<^verbatim>\<open>DDC\<close> the second assignment \<^verbatim>\<open>tmpGrad = -1\<close> is compiled), then for each row \<open>k\<close> the mean mode and the modes \<open>n \<ge> 1\<close>. The indices \<^verbatim>\<open>nZ*n+k\<close> with \<open>n < nN\<close> and \<open>k < nZ\<close> are within_tol the arrays of a well-formed simulator.
\<close>

definition initial_row :: "build \<Rightarrow> nat \<Rightarrow> Sim \<Rightarrow> Sim" where
  "initial_row b k s =
     (let T0 = (if tmpGrad s = - 1 then (tmp s)[nZ s * 0 + k := 1 - real k * dz s]
                else if tmpGrad s = 1 then (tmp s)[nZ s * 0 + k := real k * dz s]
                else tmp s);
          X0 = (if DDC b
                then (if xiGrad s = - 1 then (xi s)[nZ s * 0 + k := 1 - real k * dz s]
                      else if xiGrad s = 1 then (xi s)[nZ s * 0 + k := real k * dz s]
                      else xi s)
                else xi s)
      in s\<lparr>tmp := fold (\<lambda>n T. T[nZ s * n + k := sin (M_PI * real k * dz s)]) [1 ..< nN s] T0,
           xi := (if DDC b
                  then fold (\<lambda>n X. X[nZ s * n + k := sin (M_PI * real k * dz s)]) [1 ..< nN s] X0
                  else X0)\<rparr>)"

definition linear_initial :: "build \<Rightarrow> Sim \<Rightarrow> Sim" where
  "linear_initial b s =
     (let s = s\<lparr>tmpGrad := 1\<rparr>;
          s = (if DDC b then s\<lparr>xiGrad := 1\<rparr> else s\<lparr>tmpGrad := - 1\<rparr>)
      in fold (initial_row b) [0 ..< nZ s] s)"

text \<open>
  The loop of \<^verbatim>\<open>assert\<close>s under \<^verbatim>\<open>// Check BCs\<close> in \<^verbatim>\<open>Sim::runLinear\<close>.
\<close>

definition check_bcs :: "build \<Rightarrow> Sim \<Rightarrow> error + Sim" where
  "check_bcs b s =
     forM [0 ..< nN s] (\<lambda>n s.
       bindE (if 0 < n then assert (tmp s ! (n * nZ s) < EPSILON b) s
              else assert (tmp s ! (n * nZ s) - 1 < EPSILON b) s) (\<lambda>s.
       bindE (assert (tmp s ! (n * nZ s + nZ s - 1) < EPSILON b) s) (\<lambda>s.
       bindE (assert (omg s ! (n * nZ s) < EPSILON b) s) (\<lambda>s.
       assert (omg s ! (n * nZ s + nZ s - 1) < EPSILON b) s)))) s"

text \<open>
  \<^verbatim>\<open>tmpPrev[n] = tmp[32+n*nZ]\<close> and the like for the other fields, in the order of the source, for the modes \<open>ns\<close>: all modes before the loop, the modes \<^verbatim>\<open>for(int n=1; n<11; ++n)\<close> at a convergence check.
\<close>

definition store_probe :: "real list \<Rightarrow> nat \<Rightarrow> nat \<Rightarrow> real list \<Rightarrow> error + real list" where
  "store_probe F Z n P = bindE (rd F (32 + n * Z)) (\<lambda>x. wr P n x)"

definition store_mode :: "build \<Rightarrow> nat \<Rightarrow> lin_state \<Rightarrow> error + lin_state" where
  "store_mode b n st =
     bindE (store_probe (tmp (lsim st)) (nZ (lsim st)) n (tmpPrev st)) (\<lambda>T.
     bindE (if DDC b then store_probe (xi (lsim st)) (nZ (lsim st)) n (xiPrev st)
            else Inr (xiPrev st)) (\<lambda>X.
     bindE (store_probe (psi (lsim st)) (nZ (lsim st)) n (psiPrev st)) (\<lambda>P.
     bindE (store_probe (omg (lsim st)) (nZ (lsim st)) n (omgPrev st)) (\<lambda>W.
     Inr (st\<lparr>tmpPrev := T, xiPrev := X, psiPrev := P, omgPrev := W\<rparr>)))))"

definition store_snapshots :: "build \<Rightarrow> nat list \<Rightarrow> lin_state \<Rightarrow> error + lin_state" where
  "store_snapshots b ns st = forM ns (store_mode b) st"

text \<open>
  A growth-rate estimate, \<^verbatim>\<open>std::log(std::abs(tmp[32+nCrit*nZ])) - std::log(std::abs(tmpPrev[nCrit]))\<close>.
\<close>

definition estimate :: "real list \<Rightarrow> real list \<Rightarrow> nat \<Rightarrow> nat \<Rightarrow> error + ext" where
  "estimate F P nCrit Z =
     bindE (rd F (32 + nCrit * Z)) (\<lambda>x.
     bindE (rd P nCrit) (\<lambda>y.
     Inr (ext_sub (log_abs x) (log_abs y))))"

text \<open>
  The body of \<^verbatim>\<open>if(steps%500 == 0)\<close> in the loop of \<^verbatim>\<open>Sim::runLinear\<close>: the estimates, the nested tests against the tolerance \<^verbatim>\<open>1e-10\<close> with \<^verbatim>\<open>return logTmp\<close> (the result \<open>Inl\<close>), and otherwise the assignments to the previous estimates and the loop that stores the snapshots.
\<close>

definition convergence_check :: "build \<Rightarrow> nat \<Rightarrow> lin_state \<Rightarrow> error + (ext + lin_state)" where
  "convergence_check b nCrit st =
     bindE (estimate (tmp (lsim st)) (tmpPrev st) nCrit (nZ (lsim st))) (\<lambda>logTmp.
     bindE (if DDC b then estimate (xi (lsim st)) (xiPrev st) nCrit (nZ (lsim st))
            else Inr (logXiPrev st)) (\<lambda>logXi.
     bindE (estimate (omg (lsim st)) (omgPrev st) nCrit (nZ (lsim st))) (\<lambda>logOmg.
     bindE (estimate (psi (lsim st)) (psiPrev st) nCrit (nZ (lsim st))) (\<lambda>logPsi.
     if within_tol logTmp (logTmpPrev st) (1 / 10 ^ 10)
        \<and> (if DDC b then within_tol logXi (logXiPrev st) (1 / 10 ^ 10) else True)
        \<and> within_tol logOmg (logOmgPrev st) (1 / 10 ^ 10)
        \<and> within_tol logPsi (logPsiPrev st) (1 / 10 ^ 10)
     then Inr (Inl logTmp)
     else bindE (store_snapshots b [1 ..< 11]
                   (st\<lparr>logTmpPrev := logTmp, logXiPrev := logXi,
                       logOmgPrev := logOmg, logPsiPrev := logPsi\<rparr>)) (\<lambda>st.
          Inr (Inr st))))))"

text \<open>
  The body of the loop of \<^verbatim>\<open>Sim::runLinear\<close>: the check when \<^verbatim>\<open>steps%500 == 0\<close>, then \<^verbatim>\<open>steps++\<close> and the integrator step. The result \<open>Inr (Inl v)\<close> is \<^verbatim>\<open>return v\<close>.
\<close>

definition linear_iteration :: "build \<Rightarrow> nat \<Rightarrow> lin_state \<Rightarrow> error + (ext + lin_state)" where
  "linear_iteration b nCrit st =
     bindE (if steps st mod 500 = 0 then convergence_check b nCrit st else Inr (Inr st)) (\<lambda>r.
       case r of
         Inl v \<Rightarrow> Inr (Inl v)
       | Inr st \<Rightarrow>
           bindE (Inr (st\<lparr>steps := int32 (steps st + 1)\<rparr>)) (\<lambda>st.
           bindE (linear_step b (lsim st)) (\<lambda>s.
           Inr (Inr (st\<lparr>lsim := s\<rparr>)))))"

text \<open>
  The loop \<^verbatim>\<open>while (t<totalTime)\<close> with the \<^verbatim>\<open>return 0\<close> that follows it, and \<^verbatim>\<open>Sim::runLinear\<close>: the initial conditions, the \<^verbatim>\<open>assert\<close>s, the snapshot arrays, whose indeterminate initial contents are overwritten before they are read, the initial values of the local variables, and the loop.
\<close>

partial_function (option) linear_loop :: "build \<Rightarrow> nat \<Rightarrow> lin_state \<Rightarrow> (error + ext) option" where
  "linear_loop b nCrit st =
     (if t (lsim st) < totalTime (lsim st)
      then (case linear_iteration b nCrit st of
              Inl e \<Rightarrow> Some (Inl e)
            | Inr (Inl v) \<Rightarrow> Some (Inr v)
            | Inr (Inr st') \<Rightarrow> linear_loop b nCrit st')
      else Some (Inr (Fin 0)))"

definition runLinear :: "build \<Rightarrow> nat \<Rightarrow> Sim \<Rightarrow> (error + ext) option" where
  "runLinear b nCrit s =
     (case check_bcs b (linear_initial b s) of
        Inl e \<Rightarrow> Some (Inl e)
      | Inr s \<Rightarrow>
          (case store_snapshots b [0 ..< nN s]
                  \<lparr> lsim = s, tmpPrev = replicate (nN s) 0,
                    xiPrev = (if DDC b then replicate (nN s) 0 else []),
                    omgPrev = replicate (nN s) 0, psiPrev = replicate (nN s) 0,
                    logTmpPrev = Fin 0, logXiPrev = Fin 0, logOmgPrev = Fin 0,
                    logPsiPrev = Fin 0, steps = 0 \<rparr> of
             Inl e \<Rightarrow> Some (Inl e)
           | Inr st \<Rightarrow> linear_loop b nCrit (st\<lparr>lsim := (lsim st)\<lparr>current := 0, t := 0\<rparr>\<rparr>)))"

text \<open>
  The smallest valid grid, three rows and the mean mode only, freshly constructed.
\<close>

definition ex_min :: Sim where
  "ex_min = init ex_build 3 1 (1 / 10) 1000 1 1 0 0 1 False 0 0 1 ''out/'' ''ic.dat'' (- 1) 1"

text \<open>
  The convergence check as a function of the loop state, when no index leaves an array: the estimate, the test of all estimates, the snapshot array after the storing loop, and the state after a check that does not return. \<open>probes_ok\<close> and \<open>store_ok\<close> say that the indices of the estimates and of the storing loop are within the arrays.
\<close>

definition probe_est :: "real list \<Rightarrow> real list \<Rightarrow> nat \<Rightarrow> nat \<Rightarrow> ext" where
  "probe_est F P nCrit Z = ext_sub (log_abs (F ! (32 + nCrit * Z))) (log_abs (P ! nCrit))"

definition converged :: "build \<Rightarrow> nat \<Rightarrow> lin_state \<Rightarrow> bool" where
  "converged b nCrit st \<longleftrightarrow>
     within_tol (probe_est (tmp (lsim st)) (tmpPrev st) nCrit (nZ (lsim st)))
       (logTmpPrev st) (1 / 10 ^ 10)
     \<and> (DDC b \<longrightarrow> within_tol (probe_est (xi (lsim st)) (xiPrev st) nCrit (nZ (lsim st)))
          (logXiPrev st) (1 / 10 ^ 10))
     \<and> within_tol (probe_est (omg (lsim st)) (omgPrev st) nCrit (nZ (lsim st)))
          (logOmgPrev st) (1 / 10 ^ 10)
     \<and> within_tol (probe_est (psi (lsim st)) (psiPrev st) nCrit (nZ (lsim st)))
          (logPsiPrev st) (1 / 10 ^ 10)"

definition stored :: "real list \<Rightarrow> nat \<Rightarrow> real list \<Rightarrow> real list" where
  "stored F Z P = fold (\<lambda>n P. P[n := F ! (32 + n * Z)]) [1 ..< 11] P"

definition probes_ok :: "build \<Rightarrow> nat \<Rightarrow> lin_state \<Rightarrow> bool" where
  "probes_ok b nCrit st \<longleftrightarrow>
     32 + nCrit * nZ (lsim st) < length (tmp (lsim st)) \<and> nCrit < length (tmpPrev st)
     \<and> (DDC b \<longrightarrow> 32 + nCrit * nZ (lsim st) < length (xi (lsim st)) \<and> nCrit < length (xiPrev st))
     \<and> 32 + nCrit * nZ (lsim st) < length (omg (lsim st)) \<and> nCrit < length (omgPrev st)
     \<and> 32 + nCrit * nZ (lsim st) < length (psi (lsim st)) \<and> nCrit < length (psiPrev st)"

definition store_ok :: "build \<Rightarrow> lin_state \<Rightarrow> bool" where
  "store_ok b st \<longleftrightarrow>
     32 + 10 * nZ (lsim st) < length (tmp (lsim st)) \<and> 10 < length (tmpPrev st)
     \<and> (DDC b \<longrightarrow> 32 + 10 * nZ (lsim st) < length (xi (lsim st)) \<and> 10 < length (xiPrev st))
     \<and> 32 + 10 * nZ (lsim st) < length (omg (lsim st)) \<and> 10 < length (omgPrev st)
     \<and> 32 + 10 * nZ (lsim st) < length (psi (lsim st)) \<and> 10 < length (psiPrev st)"

definition checked :: "build \<Rightarrow> nat \<Rightarrow> lin_state \<Rightarrow> lin_state" where
  "checked b nCrit st =
     st\<lparr>logTmpPrev := probe_est (tmp (lsim st)) (tmpPrev st) nCrit (nZ (lsim st)),
        logXiPrev := (if DDC b then probe_est (xi (lsim st)) (xiPrev st) nCrit (nZ (lsim st))
                      else logXiPrev st),
        logOmgPrev := probe_est (omg (lsim st)) (omgPrev st) nCrit (nZ (lsim st)),
        logPsiPrev := probe_est (psi (lsim st)) (psiPrev st) nCrit (nZ (lsim st)),
        tmpPrev := stored (tmp (lsim st)) (nZ (lsim st)) (tmpPrev st),
        xiPrev := (if DDC b then stored (xi (lsim st)) (nZ (lsim st)) (xiPrev st) else xiPrev st),
        psiPrev := stored (psi (lsim st)) (nZ (lsim st)) (psiPrev st),
        omgPrev := stored (omg (lsim st)) (nZ (lsim st)) (omgPrev st)\<rparr>"

definition store_assign :: "build \<Rightarrow> nat \<Rightarrow> lin_state \<Rightarrow> lin_state" where
  "store_assign b n st =
     st\<lparr>tmpPrev := (tmpPrev st)[n := tmp (lsim st) ! (32 + n * nZ (lsim st))],
        xiPrev := (if DDC b then (xiPrev st)[n := xi (lsim st) ! (32 + n * nZ (lsim st))]
                   else xiPrev st),
        psiPrev := (psiPrev st)[n := psi (lsim st) ! (32 + n * nZ (lsim st))],
        omgPrev := (omgPrev st)[n := omg (lsim st) ! (32 + n * nZ (lsim st))]\<rparr>"

text \<open>
  \<^verbatim>\<open>Sim::printBenchmarkData\<close>: the rows it prints, read at \<^verbatim>\<open>n*nZ+32\<close> for the 21 modes \<^verbatim>\<open>n < 21\<close>.
\<close>

definition printBenchmarkData :: "Sim \<Rightarrow> error + (real \<times> real \<times> real) list" where
  "printBenchmarkData s =
     fold (\<lambda>n r. bindE r (\<lambda>rows.
             bindE (rd (tmp s) (n * nZ s + 32)) (\<lambda>x.
             bindE (rd (omg s) (n * nZ s + 32)) (\<lambda>y.
             bindE (rd (psi s) (n * nZ s + 32)) (\<lambda>z.
             Inr (rows @ [(x, y, z)]))))))
       [0 ..< 21] (Inr [])"

text \<open>
  Loop states of the linear driver. On a grid of 12 modes and 34 rows, where every index of a check is within the arrays and the probe row 32 is an interior row: the state of a check with \<open>T = 7\<close> everywhere, the snapshots of \<open>T\<close> all 5 and \<open>\<omega> = \<psi> = 0\<close>. On a grid of one mode and 34 rows: a state whose estimates are those of the previous check. On the grid of the first example: a state between two checks, and one at the end of the run.
\<close>

definition ex_lin :: lin_state where
  "ex_lin = \<lparr> lsim = (init ex_build 34 12 (1 / 10) 1000 1 1 0 0 1 False 0 0 1 ''out/'' ''ic.dat'' (- 1) 1)
                       \<lparr> tmp := replicate 408 7 \<rparr>,
              tmpPrev = replicate 12 5, xiPrev = [], omgPrev = replicate 12 0,
              psiPrev = replicate 12 0, logTmpPrev = Fin 0, logXiPrev = Fin 0,
              logOmgPrev = Fin 0, logPsiPrev = Fin 0, steps = 0 \<rparr>"

definition ex_conv :: lin_state where
  "ex_conv = \<lparr> lsim = (init ex_build 34 1 (1 / 10) 1000 1 1 0 0 1 False 0 0 1 ''out/'' ''ic.dat'' (- 1) 1)
                        \<lparr> tmp := replicate 34 2, omg := replicate 34 2, psi := replicate 34 2 \<rparr>,
               tmpPrev = [1], xiPrev = [], omgPrev = [1], psiPrev = [1],
               logTmpPrev = Fin (ln 2), logXiPrev = Fin 0, logOmgPrev = Fin (ln 2),
               logPsiPrev = Fin (ln 2), steps = 0 \<rparr>"

definition ex_mid :: lin_state where
  "ex_mid = \<lparr> lsim = ex_sim, tmpPrev = [5, 6], xiPrev = [], omgPrev = [0, 0], psiPrev = [0, 0],
              logTmpPrev = Fin 0, logXiPrev = Fin 0, logOmgPrev = Fin 0, logPsiPrev = Fin 0,
              steps = 1 \<rparr>"

definition ex_done :: lin_state where
  "ex_done = ex_mid\<lparr> lsim := ex_sim\<lparr> t := 1 \<rparr> \<rparr>"

section \<open>Properties\<close>

subsection \<open>Lists, loops and indices\<close>

lemma upd_add: "xs[i := v, i := xs[i := v] ! i + w] = xs[i := v + (w::real)]"
  by (cases "i < length xs") (simp_all add: list_update_beyond)

lemma upd_diff: "xs[i := v, i := xs[i := v] ! i - w] = xs[i := v - (w::real)]"
  by (cases "i < length xs") (simp_all add: list_update_beyond)

lemma linear_assign_eq:
  "linear_assign b l n k s =
     s\<lparr>dTmpdt := (dTmpdt s)[di s (n, k) := linT l s n k],
       dXidt := (if DDC b then (dXidt s)[di s (n, k) := linX l s n k] else dXidt s),
       dOmgdt := (dOmgdt s)[di s (n, k) := linO b s n k]\<rparr>"
  by (cases "DDC b"; cases "l = 1")
     (simp_all only: linear_assign_def Let_def linT_def linO_def linX_def di_def prod.case
        upd_add if_True if_False add_0_right simp_thms)

lemma forM_Inr_fold:
  assumes "\<And>x s s'. body x s = Inr s' \<Longrightarrow> s' = g x s"
  shows "forM xs body s = Inr s' \<Longrightarrow> s' = fold g xs s"
proof (induction xs arbitrary: s)
  case Nil
  then show ?case by simp
next
  case (Cons x xs)
  then obtain s1 where b: "body x s = Inr s1" and r: "forM xs body s1 = Inr s'"
    by (auto split: sum.splits)
  from assms[OF b] Cons.IH[OF r] show ?case by simp
qed

lemma fold_product:
  "fold (\<lambda>n. fold (g n) ks) ns s = fold (\<lambda>(n, k). g n k) (List.product ns ks) s"
  by (induction ns arbitrary: s) (simp_all add: fold_map comp_def)

lemma fold_upd_length [simp]:
  "length (fold (\<lambda>x ys. ys[idx x := val x]) xs ys) = length ys"
  by (induction xs arbitrary: ys) simp_all

lemma fold_upd_other:
  "j \<notin> idx ` set xs \<Longrightarrow> fold (\<lambda>x ys. ys[idx x := val x]) xs ys ! j = ys ! j"
  by (induction xs arbitrary: ys) simp_all

lemma fold_upd_hit:
  assumes "x \<in> set xs" "idx x < length ys"
    and "\<And>x'. x' \<in> set xs \<Longrightarrow> idx x' = idx x \<Longrightarrow> val x' = val x"
  shows "fold (\<lambda>x ys. ys[idx x := val x]) xs ys ! idx x = val x"
  using assms
proof (induction xs rule: rev_induct)
  case Nil
  then show ?case by simp
next
  case (snoc y xs)
  let ?r = "fold (\<lambda>x ys. ys[idx x := val x]) xs ys"
  have step: "fold (\<lambda>x ys. ys[idx x := val x]) (xs @ [y]) ys = ?r[idx y := val y]"
    by simp
  show ?case
  proof (cases "idx y = idx x")
    case True
    have "val y = val x" by (rule snoc.prems(3)) (simp_all add: True)
    moreover have "idx x < length ?r" using snoc.prems(2) by simp
    ultimately show ?thesis unfolding step True by simp
  next
    case False
    with snoc.prems(1) have m: "x \<in> set xs" by auto
    have "?r ! idx x = val x"
      by (rule snoc.IH[OF m snoc.prems(2)]) (rule snoc.prems(3), simp_all)
    with False show ?thesis unfolding step by simp
  qed
qed

lemma idx_inj:
  fixes Z :: nat
  assumes "k < Z" "k' < Z" "c + n * Z + k = c + n' * Z + k'"
  shows "n = n' \<and> k = k'"
proof -
  from assms(3) have e: "n * Z + k = n' * Z + k'" by simp
  from assms(1) have Z: "0 < Z" by simp
  have "(n * Z + k) div Z = n" using assms(1) by simp
  moreover have "(n' * Z + k') div Z = n'" using assms(2) by simp
  ultimately have "n = n'" using e by simp
  with e show ?thesis by simp
qed

lemma cell_bound:
  fixes Z :: nat
  assumes "n < N" "k < Z"
  shows "n * Z + k < N * Z"
proof -
  have "n * Z + k < n * Z + Z" using assms(2) by simp
  also have "\<dots> = Suc n * Z" by simp
  also have "\<dots> \<le> N * Z" using assms(1) by (intro mult_le_mono1) simp
  finally show ?thesis .
qed

lemma slot_bound:
  fixes Z :: nat
  assumes "c < 2" "n < N" "k < Z"
  shows "c * Z * N + n * Z + k < 2 * N * Z"
proof -
  from assms(1) have "c \<le> 1" by simp
  then have "c * (Z * N) \<le> 1 * (Z * N)" by (rule mult_le_mono1)
  then have "c * Z * N \<le> N * Z" by (simp add: ac_simps)
  moreover note cell_bound[OF assms(2,3)]
  ultimately show ?thesis by linarith
qed

lemma env_linear_assign: "env (linear_assign b l n k s) = env s"
  by (simp add: linear_assign_eq env_def)

lemma env_fold:
  assumes "\<And>x s. env (g x s) = env s"
  shows "env (fold g xs s) = env s"
  by (induction xs arbitrary: s) (simp_all add: assms)

lemma env_nZ: "env s = env s' \<Longrightarrow> nZ s = nZ s'"
  by (drule arg_cong[of _ _ nZ]) (simp add: env_def)

lemma env_nN: "env s = env s' \<Longrightarrow> nN s = nN s'"
  by (drule arg_cong[of _ _ nN]) (simp add: env_def)

lemma env_current: "env s = env s' \<Longrightarrow> current s = current s'"
  by (drule arg_cong[of _ _ current]) (simp add: env_def)

lemma env_tmp: "env s = env s' \<Longrightarrow> tmp s = tmp s'"
  by (drule arg_cong[of _ _ tmp]) (simp add: env_def)

lemma env_psi: "env s = env s' \<Longrightarrow> psi s = psi s'"
  by (drule arg_cong[of _ _ psi]) (simp add: env_def)

lemma env_omg: "env s = env s' \<Longrightarrow> omg s = omg s'"
  by (drule arg_cong[of _ _ omg]) (simp add: env_def)

lemma env_xi: "env s = env s' \<Longrightarrow> xi s = xi s'"
  by (drule arg_cong[of _ _ xi]) (simp add: env_def)

lemma env_dz: "env s = env s' \<Longrightarrow> dz s = dz s'"
  by (drule arg_cong[of _ _ dz]) (simp add: env_def)

lemma env_a: "env s = env s' \<Longrightarrow> a s = a s'"
  by (drule arg_cong[of _ _ a]) (simp add: env_def)

lemma env_tmpGrad: "env s = env s' \<Longrightarrow> tmpGrad s = tmpGrad s'"
  by (drule arg_cong[of _ _ tmpGrad]) (simp add: env_def)

lemma env_xiGrad: "env s = env s' \<Longrightarrow> xiGrad s = xiGrad s'"
  by (drule arg_cong[of _ _ xiGrad]) (simp add: env_def)

lemma env_Pr: "env s = env s' \<Longrightarrow> Pr s = Pr s'"
  by (drule arg_cong[of _ _ Pr]) (simp add: env_def)

lemma env_Ra: "env s = env s' \<Longrightarrow> Ra s = Ra s'"
  by (drule arg_cong[of _ _ Ra]) (simp add: env_def)

lemma env_RaXi: "env s = env s' \<Longrightarrow> RaXi s = RaXi s'"
  by (drule arg_cong[of _ _ RaXi]) (simp add: env_def)

lemma env_tau: "env s = env s' \<Longrightarrow> tau s = tau s'"
  by (drule arg_cong[of _ _ tau]) (simp add: env_def)

lemma env_dt: "env s = env s' \<Longrightarrow> dt s = dt s'"
  by (drule arg_cong[of _ _ dt]) (simp add: env_def)

lemma env_t: "env s = env s' \<Longrightarrow> t s = t s'"
  by (drule arg_cong[of _ _ t]) (simp add: env_def)

lemmas env_fields = env_nZ env_nN env_current env_tmp env_psi env_omg env_xi env_dz env_a
  env_tmpGrad env_xiGrad env_Pr env_Ra env_RaXi env_tau env_dt env_t

lemma linT_env: "env s = env s' \<Longrightarrow> linT l s n k = linT l s' n k"
  unfolding linT_def by (simp only: env_fields[of s s'])

lemma linO_env: "env s = env s' \<Longrightarrow> linO b s n k = linO b s' n k"
  unfolding linO_def by (simp only: env_fields[of s s'])

lemma linX_env: "env s = env s' \<Longrightarrow> linX l s n k = linX l s' n k"
  unfolding linX_def by (simp only: env_fields[of s s'])

lemma di_env: "env s = env s' \<Longrightarrow> di s x = di s' x"
  unfolding di_def by (simp only: env_fields[of s s'])

lemma dTmpdt_linear_assign:
  "dTmpdt (linear_assign b l n k s) = (dTmpdt s)[di s (n, k) := linT l s n k]"
  by (simp add: linear_assign_eq)

lemma dOmgdt_linear_assign:
  "dOmgdt (linear_assign b l n k s) = (dOmgdt s)[di s (n, k) := linO b s n k]"
  by (simp add: linear_assign_eq)

lemma dXidt_linear_assign:
  "dXidt (linear_assign b l n k s) =
     (if DDC b then (dXidt s)[di s (n, k) := linX l s n k] else dXidt s)"
  by (simp add: linear_assign_eq)

lemma dTmpdt_fold_linear:
  "dTmpdt (fold (\<lambda>(n, k). linear_assign b l n k) xs s) =
     fold (\<lambda>x ys. ys[di s x := (\<lambda>(n, k). linT l s n k) x]) xs (dTmpdt s)"
proof (induction xs rule: rev_induct)
  case Nil
  then show ?case by simp
next
  case (snoc x xs)
  obtain n k where x: "x = (n, k)" by (cases x)
  let ?s1 = "fold (\<lambda>(n, k). linear_assign b l n k) xs s"
  have e: "env ?s1 = env s"
    by (rule env_fold) (simp add: env_linear_assign split: prod.split)
  show ?case
    by (simp add: x dTmpdt_linear_assign snoc.IH[symmetric] di_env[OF e] linT_env[OF e])
qed

lemma dOmgdt_fold_linear:
  "dOmgdt (fold (\<lambda>(n, k). linear_assign b l n k) xs s) =
     fold (\<lambda>x ys. ys[di s x := (\<lambda>(n, k). linO b s n k) x]) xs (dOmgdt s)"
proof (induction xs rule: rev_induct)
  case Nil
  then show ?case by simp
next
  case (snoc x xs)
  obtain n k where x: "x = (n, k)" by (cases x)
  let ?s1 = "fold (\<lambda>(n, k). linear_assign b l n k) xs s"
  have e: "env ?s1 = env s"
    by (rule env_fold) (simp add: env_linear_assign split: prod.split)
  show ?case
    by (simp add: x dOmgdt_linear_assign snoc.IH[symmetric] di_env[OF e] linO_env[OF e])
qed

lemma linear_body_Inr: "linear_body b l n k s = Inr s' \<Longrightarrow> s' = linear_assign b l n k s"
  by (simp add: linear_body_def assert_def Let_def split: if_splits)

lemma computeLinearDerivatives_Inr:
  assumes "computeLinearDerivatives b l s = Inr s'"
  shows "s' = fold (\<lambda>(n, k). linear_assign b l n k)
                (List.product [l ..< nN s] [1 ..< nZ s - 1]) s"
proof -
  have inner: "\<And>n u u'. forM [1 ..< nZ s - 1] (linear_body b l n) u = Inr u' \<Longrightarrow>
      u' = fold (linear_assign b l n) [1 ..< nZ s - 1] u"
    by (rule forM_Inr_fold[where body="linear_body b l _"]) (rule linear_body_Inr)
  have "s' = fold (\<lambda>n. fold (linear_assign b l n) [1 ..< nZ s - 1]) [l ..< nN s] s"
    using assms unfolding computeLinearDerivatives_def
    by (rule forM_Inr_fold[rotated]) (rule inner)
  then show ?thesis by (simp only: fold_product)
qed

subsection \<open>The nonlinear tendency pass\<close>

lemma upd_add_map: "xs[i := xs ! i + v] = map (\<lambda>j. xs ! j + hit i v j) [0 ..< length xs]"
  by (rule nth_equalityI) (auto simp: hit_def nth_list_update)

lemma map_add_zero: "map (\<lambda>j. xs ! j + (0::real)) [0 ..< length xs] = xs"
  by (rule nth_equalityI) auto

lemma accum_at_id: "accum_at (\<lambda>s. s) s (\<lambda>j. 0) (\<lambda>j. 0)"
  by (simp add: accum_at_def map_nth)

lemma accum_at_comp:
  assumes "accum_at g1 s a1 b1" and "accum_at g2 (g1 s) a2 b2"
  shows "accum_at (\<lambda>s. g2 (g1 s)) s (\<lambda>j. a1 j + a2 j) (\<lambda>j. b1 j + b2 j)"
  using assms unfolding accum_at_def by (auto simp: add.assoc)

lemma accum_at_fold:
  assumes "\<And>x s'. x \<in> set xs \<Longrightarrow> env s' = env s \<Longrightarrow> accum_at (g x) s' (dT x) (dO x)"
  shows "accum_at (fold g xs) s (\<lambda>j. \<Sum>x\<leftarrow>xs. dT x j) (\<lambda>j. \<Sum>x\<leftarrow>xs. dO x j)"
  using assms
proof (induction xs arbitrary: s)
  case Nil
  show ?case using accum_at_id[of s] by (simp add: id_def)
next
  case (Cons x xs)
  have h: "accum_at (g x) s (dT x) (dO x)" by (rule Cons.prems) simp_all
  then have e: "env (g x s) = env s" by (simp add: accum_at_def)
  have r: "accum_at (fold g xs) (g x s) (\<lambda>j. \<Sum>x\<leftarrow>xs. dT x j) (\<lambda>j. \<Sum>x\<leftarrow>xs. dO x j)"
    by (rule Cons.IH) (rule Cons.prems, simp_all add: e)
  from accum_at_comp[OF h r] show ?case by simp
qed

lemma forM_fold_inv:
  assumes "I s"
    and "\<And>x u. x \<in> set xs \<Longrightarrow> I u \<Longrightarrow> body x u = Inr (g x u) \<and> I (g x u)"
  shows "forM xs body s = Inr (fold g xs s)"
  using assms
proof (induction xs arbitrary: s)
  case Nil
  then show ?case by simp
next
  case (Cons x xs)
  have b: "body x s = Inr (g x s)" and i: "I (g x s)"
    using Cons.prems(2)[of x s] Cons.prems(1) by simp_all
  have "forM xs body (g x s) = Inr (fold g xs (g x s))"
    by (rule Cons.IH[OF i]) (rule Cons.prems(2), simp_all)
  with b show ?case by simp
qed

lemma env_env [simp]: "env (env s) = env s"
  by (simp add: env_def)

lemma two_a_env: "env s = env s' \<Longrightarrow> two_a s = two_a s'"
  unfolding two_a_def by (simp only: env_a[of s s'])

lemma two_a_in_range: "2 * a s < 2 ^ 31 \<Longrightarrow> two_a s = 2 * real (a s)"
  by (simp add: two_a_def int32_def)

lemma two_a_wraps: "a s = 2 ^ 30 \<Longrightarrow> two_a s = - (2 ^ 31)"
  by (simp add: two_a_def int32_def)

lemma triad_val_env: "env s = env s' \<Longrightarrow> triad_val F sg s m o' k = triad_val F sg s' m o' k"
  unfolding triad_val_def by (simp only: env_fields[of s s'] two_a_env[of s s'])

lemma meanT_env: "env s = env s' \<Longrightarrow> meanT s n k = meanT s' n k"
  unfolding meanT_def by (simp only: env_fields[of s s'] two_a_env[of s s'])

lemma fromMeanT_env: "env s = env s' \<Longrightarrow> fromMeanT s n k = fromMeanT s' n k"
  unfolding fromMeanT_def by (simp only: env_fields[of s s'])

lemma accum_mean_body:
  "accum_at (mean_body n k) s (hit (di s (0, k)) (meanT s n k)) (\<lambda>j. 0)"
  by (simp add: accum_at_def mean_body_def Let_def env_def upd_add_map[symmetric] map_nth
        di_def meanT_def)

lemma accum_from_mean_body:
  "accum_at (from_mean_body n k) s (hit (di s (n, k)) (fromMeanT s n k)) (\<lambda>j. 0)"
  by (simp add: accum_at_def from_mean_body_def Let_def env_def upd_add_map[symmetric] map_nth
        di_def fromMeanT_def add.assoc)

lemma accum_triad_sum_body:
  "accum_at (triad_sum_body n m o' k) s
     (hit (di s (n, k)) (triad_val (tmp s) (- 1) s m o' k))
     (hit (di s (n, k)) (triad_val (omg s) (- 1) s m o' k))"
  by (simp add: accum_at_def triad_sum_body_def Let_def env_def upd_add_map[symmetric]
        di_def triad_val_def mult.commute[of "nZ s" n])

lemma accum_triad_diff_body:
  "accum_at (triad_diff_body n m o' k) s
     (hit (di s (n, k)) (triad_val (tmp s) 1 s m o' k))
     (hit (di s (n, k)) (triad_val (omg s) 1 s m o' k))"
  by (simp add: accum_at_def triad_diff_body_def Let_def env_def upd_add_map[symmetric]
        di_def triad_val_def mult.commute[of "nZ s" n])

lemma accum_triad_rdiff_body:
  "accum_at (triad_rdiff_body n m o' k) s
     (hit (di s (n, k)) (triad_val (tmp s) 1 s m o' k))
     (hit (di s (n, k)) (- triad_val (omg s) 1 s m o' k))"
  by (simp add: accum_at_def triad_rdiff_body_def Let_def env_def upd_add_map[symmetric]
        di_def triad_val_def mult.commute[of "nZ s" n])

lemma hit_row:
  "(\<Sum>k\<leftarrow>ks. hit (di s (n, k)) (c k) j) = (\<Sum>k\<leftarrow>ks. if j = di s (n, k) then c k else 0)"
  by (simp add: hit_def)

lemma accum_row:
  assumes e: "env u = env s"
    and b: "\<And>k u. accum_at (body k) u (hit (di u (n, k)) (cT u k)) (hit (di u (n, k)) (cO u k))"
    and cT: "\<And>k u. env u = env s \<Longrightarrow> cT u k = cT s k"
    and cO: "\<And>k u. env u = env s \<Longrightarrow> cO u k = cO s k"
  shows "accum_at (fold body [1 ..< nZ s - 1]) u (row s n (cT s)) (row s n (cO s))"
proof -
  have "accum_at (fold body [1 ..< nZ s - 1]) u
          (\<lambda>j. \<Sum>k\<leftarrow>[1 ..< nZ s - 1]. hit (di s (n, k)) (cT s k) j)
          (\<lambda>j. \<Sum>k\<leftarrow>[1 ..< nZ s - 1]. hit (di s (n, k)) (cO s k) j)"
  proof (rule accum_at_fold)
    fix k s' assume "env s' = env u"
    then have e': "env s' = env s" using e by simp
    from b[of k s'] show "accum_at (body k) s' (hit (di s (n, k)) (cT s k)) (hit (di s (n, k)) (cO s k))"
      by (simp only: di_env[OF e'] cT[OF e'] cO[OF e'])
  qed
  then show ?thesis unfolding row_def hit_row .
qed

lemma accum_env: "accum_at g u dT dO \<Longrightarrow> env (g u) = env u"
  by (simp add: accum_at_def)

lemma hit_zero: "hit i 0 = (\<lambda>j. 0)"
  by (simp add: hit_def fun_eq_iff)

lemma triad_tmp_env: "env u = env s \<Longrightarrow> triad_val (tmp u) sg u m o' k = triad_val (tmp s) sg s m o' k"
  by (simp only: env_tmp[of u s] triad_val_env[of u s])

lemma triad_omg_env: "env u = env s \<Longrightarrow> triad_val (omg u) sg u m o' k = triad_val (omg s) sg s m o' k"
  by (simp only: env_omg[of u s] triad_val_env[of u s])

lemma accum_mean_row:
  assumes "env u = env s"
  shows "accum_at (fold (mean_body n) [1 ..< nZ s - 1]) u (row s 0 (meanT s n)) (row s 0 (\<lambda>k. 0))"
  by (rule accum_row[OF assms, where cT="\<lambda>u. meanT u n" and cO="\<lambda>u k. 0"])
     (simp add: accum_mean_body hit_zero, erule meanT_env, simp)

lemma accum_from_mean_row:
  assumes "env u = env s"
  shows "accum_at (fold (from_mean_body n) [1 ..< nZ s - 1]) u
           (row s n (fromMeanT s n)) (row s n (\<lambda>k. 0))"
  by (rule accum_row[OF assms, where cT="\<lambda>u. fromMeanT u n" and cO="\<lambda>u k. 0"])
     (simp add: accum_from_mean_body hit_zero, erule fromMeanT_env, simp)

lemma accum_sum_row:
  assumes "env u = env s"
  shows "accum_at (fold (triad_sum_body n m o') [1 ..< nZ s - 1]) u
           (row s n (triad_val (tmp s) (- 1) s m o')) (row s n (triad_val (omg s) (- 1) s m o'))"
  by (rule accum_row[OF assms, where cT="\<lambda>u. triad_val (tmp u) (- 1) u m o'"
        and cO="\<lambda>u. triad_val (omg u) (- 1) u m o'"])
     (rule accum_triad_sum_body, erule triad_tmp_env, erule triad_omg_env)

lemma accum_diff_row:
  assumes "env u = env s"
  shows "accum_at (fold (triad_diff_body n m o') [1 ..< nZ s - 1]) u
           (row s n (triad_val (tmp s) 1 s m o')) (row s n (triad_val (omg s) 1 s m o'))"
  by (rule accum_row[OF assms, where cT="\<lambda>u. triad_val (tmp u) 1 u m o'"
        and cO="\<lambda>u. triad_val (omg u) 1 u m o'"])
     (rule accum_triad_diff_body, erule triad_tmp_env, erule triad_omg_env)

lemma accum_rdiff_row:
  assumes "env u = env s"
  shows "accum_at (fold (triad_rdiff_body n m o') [1 ..< nZ s - 1]) u
           (row s n (triad_val (tmp s) 1 s m o')) (row s n (\<lambda>k. - triad_val (omg s) 1 s m o' k))"
  by (rule accum_row[OF assms, where cT="\<lambda>u. triad_val (tmp u) 1 u m o'"
        and cO="\<lambda>u k. - triad_val (omg u) 1 u m o' k"])
     (rule accum_triad_rdiff_body, erule triad_tmp_env, rule arg_cong[where f=uminus],
      erule triad_omg_env)

lemma accum_mode_pure:
  assumes e: "env u = env s"
  shows "accum_at (mode_pure s n) u (modeT s n) (modeO s n)"
proof -
  let ?g1 = "fold (from_mean_body n) [1 ..< nZ s - 1]"
  let ?g2 = "fold (\<lambda>m. fold (triad_sum_body n m (n - m)) [1 ..< nZ s - 1]) [1 ..< n]"
  let ?g3 = "fold (\<lambda>m. fold (triad_diff_body n m (m - n)) [1 ..< nZ s - 1]) [n + 1 ..< nN s]"
  let ?g4 = "fold (\<lambda>m. fold (triad_rdiff_body n m (n + m)) [1 ..< nZ s - 1]) [1 ..< nN s - n]"
  note a1 = accum_from_mean_row[OF e, of n]
  have e1: "env (?g1 u) = env s" using accum_env[OF a1] e by simp
  have a2: "accum_at ?g2 (?g1 u)
      (\<lambda>j. \<Sum>m\<leftarrow>[1 ..< n]. row s n (triad_val (tmp s) (- 1) s m (n - m)) j)
      (\<lambda>j. \<Sum>m\<leftarrow>[1 ..< n]. row s n (triad_val (omg s) (- 1) s m (n - m)) j)"
    by (rule accum_at_fold) (rule accum_sum_row, use e1 in simp)
  note a12 = accum_at_comp[OF a1 a2]
  have e2: "env (?g2 (?g1 u)) = env s" using accum_env[OF a2] e1 by simp
  have a3: "accum_at ?g3 (?g2 (?g1 u))
      (\<lambda>j. \<Sum>m\<leftarrow>[n + 1 ..< nN s]. row s n (triad_val (tmp s) 1 s m (m - n)) j)
      (\<lambda>j. \<Sum>m\<leftarrow>[n + 1 ..< nN s]. row s n (triad_val (omg s) 1 s m (m - n)) j)"
    by (rule accum_at_fold) (rule accum_diff_row, use e2 in simp)
  note a123 = accum_at_comp[OF a12 a3]
  have e3: "env (?g3 (?g2 (?g1 u))) = env s" using accum_env[OF a3] e2 by simp
  have a4: "accum_at ?g4 (?g3 (?g2 (?g1 u)))
      (\<lambda>j. \<Sum>m\<leftarrow>[1 ..< nN s - n]. row s n (triad_val (tmp s) 1 s m (n + m)) j)
      (\<lambda>j. \<Sum>m\<leftarrow>[1 ..< nN s - n]. row s n (\<lambda>k. - triad_val (omg s) 1 s m (n + m) k) j)"
    by (rule accum_at_fold) (rule accum_rdiff_row, use e3 in simp)
  note a1234 = accum_at_comp[OF a123 a4]
  have m: "mode_pure s n = (\<lambda>u. ?g4 (?g3 (?g2 (?g1 u))))"
    by (simp add: mode_pure_def fun_eq_iff)
  have T: "modeT s n = (\<lambda>j. row s n (fromMeanT s n) j
     + (\<Sum>m\<leftarrow>[1 ..< n]. row s n (triad_val (tmp s) (- 1) s m (n - m)) j)
     + (\<Sum>m\<leftarrow>[n + 1 ..< nN s]. row s n (triad_val (tmp s) 1 s m (m - n)) j)
     + (\<Sum>m\<leftarrow>[1 ..< nN s - n]. row s n (triad_val (tmp s) 1 s m (n + m)) j))"
    by (simp add: modeT_def fun_eq_iff)
  have O: "modeO s n = (\<lambda>j. row s n (\<lambda>k. 0) j
     + (\<Sum>m\<leftarrow>[1 ..< n]. row s n (triad_val (omg s) (- 1) s m (n - m)) j)
     + (\<Sum>m\<leftarrow>[n + 1 ..< nN s]. row s n (triad_val (omg s) 1 s m (m - n)) j)
     + (\<Sum>m\<leftarrow>[1 ..< nN s - n]. row s n (\<lambda>k. - triad_val (omg s) 1 s m (n + m) k) j))"
    by (simp add: modeO_def fun_eq_iff)
  show ?thesis unfolding m T O by (rule a1234)
qed

lemma triad_loop_eq:
  assumes "0 < o'" "o' < nN u" "0 < m" "m < nN u"
  shows "triad_loop body n m o' u = Inr (fold (body n m o') [1 ..< nZ u - 1] u)"
  using assms by (simp add: triad_loop_def bindE_def assert_def)

lemma triad_forM:
  assumes e: "env u = env s"
    and rng: "\<And>m. m \<in> set ms \<Longrightarrow> 0 < o' m \<and> o' m < nN s \<and> 0 < m \<and> m < nN s"
    and pres: "\<And>m v. env v = env s \<Longrightarrow> env (fold (body n m (o' m)) [1 ..< nZ s - 1] v) = env s"
  shows "forM ms (\<lambda>m. triad_loop body n m (o' m)) u =
           Inr (fold (\<lambda>m. fold (body n m (o' m)) [1 ..< nZ s - 1]) ms u)"
proof (rule forM_fold_inv[where I="\<lambda>v. env v = env s"])
  show "env u = env s" by (rule e)
next
  fix m v assume m: "m \<in> set ms" and v: "env v = env s"
  have N: "nN v = nN s" and Z: "nZ v = nZ s" using v by (rule env_nN, rule env_nZ)
  have "triad_loop body n m (o' m) v = Inr (fold (body n m (o' m)) [1 ..< nZ v - 1] v)"
    by (rule triad_loop_eq) (use rng[OF m] N in simp_all)
  then show "triad_loop body n m (o' m) v = Inr (fold (body n m (o' m)) [1 ..< nZ s - 1] v)
        \<and> env (fold (body n m (o' m)) [1 ..< nZ s - 1] v) = env s"
    using pres[OF v] Z by simp
qed

lemma env_fold_inv:
  assumes "env u = env s" and "\<And>x v. env v = env s \<Longrightarrow> env (g x v) = env s"
  shows "env (fold g xs u) = env s"
  using assms by (induction xs arbitrary: u) simp_all

lemma mode_body_eq:
  assumes e: "env u = env s" and n: "1 \<le> n" "n < nN s"
  shows "mode_body n u = Inr (mode_pure s n u)"
proof -
  let ?ks = "[1 ..< nZ s - 1]"
  let ?g1 = "fold (from_mean_body n) ?ks"
  let ?g2 = "fold (\<lambda>m. fold (triad_sum_body n m (n - m)) ?ks) [1 ..< n]"
  let ?g3 = "fold (\<lambda>m. fold (triad_diff_body n m (m - n)) ?ks) [n + 1 ..< nN s]"
  have N: "nN u = nN s" and Z: "nZ u = nZ s" using e by (rule env_nN, rule env_nZ)
  have p1: "\<And>m o' v. env v = env s \<Longrightarrow> env (fold (triad_sum_body n m o') ?ks v) = env s"
    using accum_env[OF accum_sum_row] by simp
  have p2: "\<And>m o' v. env v = env s \<Longrightarrow> env (fold (triad_diff_body n m o') ?ks v) = env s"
    using accum_env[OF accum_diff_row] by simp
  have p3: "\<And>m o' v. env v = env s \<Longrightarrow> env (fold (triad_rdiff_body n m o') ?ks v) = env s"
    using accum_env[OF accum_rdiff_row] by simp
  have e1: "env (?g1 u) = env s"
    using accum_env[OF accum_from_mean_row[OF e, of n]] e by simp
  have f2: "forM [1 ..< n] (\<lambda>m. triad_loop triad_sum_body n m (n - m)) (?g1 u) = Inr (?g2 (?g1 u))"
  proof (rule triad_forM[OF e1])
    show "\<And>m v. env v = env s \<Longrightarrow> env (fold (triad_sum_body n m (n - m)) ?ks v) = env s"
      by (rule p1)
  qed (use n in auto)
  have e2: "env (?g2 (?g1 u)) = env s"
    by (rule env_fold_inv[OF e1]) (rule p1)
  have f3: "forM [n + 1 ..< nN s] (\<lambda>m. triad_loop triad_diff_body n m (m - n)) (?g2 (?g1 u))
              = Inr (?g3 (?g2 (?g1 u)))"
  proof (rule triad_forM[OF e2])
    show "\<And>m v. env v = env s \<Longrightarrow> env (fold (triad_diff_body n m (m - n)) ?ks v) = env s"
      by (rule p2)
  qed (use n in auto)
  have e3: "env (?g3 (?g2 (?g1 u))) = env s"
    by (rule env_fold_inv[OF e2]) (rule p2)
  have f4: "forM [1 ..< nN s - n] (\<lambda>m. triad_loop triad_rdiff_body n m (n + m)) (?g3 (?g2 (?g1 u)))
              = Inr (fold (\<lambda>m. fold (triad_rdiff_body n m (n + m)) ?ks) [1 ..< nN s - n]
                      (?g3 (?g2 (?g1 u))))"
  proof (rule triad_forM[OF e3])
    show "\<And>m v. env v = env s \<Longrightarrow> env (fold (triad_rdiff_body n m (n + m)) ?ks v) = env s"
      by (rule p3)
  qed (use n in auto)
  have N2: "nN (?g2 (?g1 u)) = nN s" using e2 by (rule env_nN)
  have N3: "nN (?g3 (?g2 (?g1 u))) = nN s" using e3 by (rule env_nN)
  show ?thesis
    unfolding mode_body_def mode_pure_def bindE_def Z N
    by (simp only: sum.case f2 f3 f4 N2 N3)
qed

lemma computeNonLinearDerivatives_eq: "computeNonLinearDerivatives s = Inr (nonlinear_pure s)"
proof -
  let ?s1 = "fold (\<lambda>n. fold (mean_body n) [1 ..< nZ s - 1]) [1 ..< nN s] s"
  have e1: "env ?s1 = env s"
    by (rule env_fold_inv[OF refl]) (rule accum_env[OF accum_mean_row, THEN trans], simp_all)
  have "forM [1 ..< nN s] mode_body ?s1 = Inr (fold (mode_pure s) [1 ..< nN s] ?s1)"
  proof (rule forM_fold_inv[where I="\<lambda>v. env v = env s"])
    show "env ?s1 = env s" by (rule e1)
  next
    fix n v assume n: "n \<in> set [1 ..< nN s]" and v: "env v = env s"
    have "mode_body n v = Inr (mode_pure s n v)"
      by (rule mode_body_eq[OF v]) (use n in auto)
    moreover have "env (mode_pure s n v) = env s"
      using accum_env[OF accum_mode_pure[OF v]] v by simp
    ultimately show "mode_body n v = Inr (mode_pure s n v) \<and> env (mode_pure s n v) = env s"
      by simp
  qed
  then show ?thesis
    by (simp add: computeNonLinearDerivatives_def nonlinear_pure_def Let_def)
qed

lemma accum_nonlinear_pure:
  "accum_at nonlinear_pure s
     (\<lambda>j. (\<Sum>n\<leftarrow>[1 ..< nN s]. row s 0 (meanT s n) j) + (\<Sum>n\<leftarrow>[1 ..< nN s]. modeT s n j))
     (\<lambda>j. (\<Sum>n\<leftarrow>[1 ..< nN s]. row s 0 (\<lambda>k. 0) j) + (\<Sum>n\<leftarrow>[1 ..< nN s]. modeO s n j))"
proof -
  let ?g1 = "fold (\<lambda>n. fold (mean_body n) [1 ..< nZ s - 1]) [1 ..< nN s]"
  let ?g2 = "fold (mode_pure s) [1 ..< nN s]"
  have a1: "accum_at ?g1 s (\<lambda>j. \<Sum>n\<leftarrow>[1 ..< nN s]. row s 0 (meanT s n) j)
              (\<lambda>j. \<Sum>n\<leftarrow>[1 ..< nN s]. row s 0 (\<lambda>k. 0) j)"
    by (rule accum_at_fold) (rule accum_mean_row)
  have e1: "env (?g1 s) = env s" by (rule accum_env[OF a1])
  have a2: "accum_at ?g2 (?g1 s) (\<lambda>j. \<Sum>n\<leftarrow>[1 ..< nN s]. modeT s n j)
              (\<lambda>j. \<Sum>n\<leftarrow>[1 ..< nN s]. modeO s n j)"
    by (rule accum_at_fold) (rule accum_mode_pure, use e1 in simp)
  from accum_at_comp[OF a1 a2] show ?thesis
    by (simp add: accum_at_def nonlinear_pure_def)
qed

lemma sum_list_miss:
  assumes "\<And>x. x \<in> set xs \<Longrightarrow> \<not> P x"
  shows "(\<Sum>x\<leftarrow>xs. if P x then f x else (0::real)) = 0"
  using assms by (induction xs) simp_all

lemma sum_list_single:
  assumes "distinct xs" and "y \<in> set xs"
  shows "(\<Sum>x\<leftarrow>xs. if x = y then f x else (0::real)) = f y"
  using assms
proof (induction xs)
  case Nil
  then show ?case by simp
next
  case (Cons x xs)
  show ?case
  proof (cases "x = y")
    case True
    with Cons.prems have "y \<notin> set xs" by simp
    then have "(\<Sum>x\<leftarrow>xs. if x = y then f x else 0) = 0"
      by (intro sum_list_miss) auto
    with True show ?thesis by simp
  next
    case False
    with Cons show ?thesis by simp
  qed
qed

lemma di_eq_iff:
  assumes "k < nZ s" "k' < nZ s"
  shows "di s (n, k) = di s (n', k') \<longleftrightarrow> n = n' \<and> k = k'"
  using idx_inj[OF assms, of "current s * nZ s * nN s" n n'] by (auto simp: di_def)

lemma row_at:
  assumes "1 \<le> k0" "k0 < nZ s - 1"
  shows "row s n c (di s (n0, k0)) = (if n = n0 then c k0 else 0)"
proof -
  have k0: "k0 < nZ s" using assms by arith
  have "row s n c (di s (n0, k0)) =
          (\<Sum>k\<leftarrow>[1 ..< nZ s - 1]. if n = n0 \<and> k = k0 then c k else 0)"
    unfolding row_def
  proof (rule arg_cong[where f=sum_list], rule map_cong[OF refl])
    fix k assume "k \<in> set [1 ..< nZ s - 1]"
    then have "k < nZ s - 1" by simp
    then have "k < nZ s" by arith
    from di_eq_iff[OF k0 this, of n0 n]
    show "(if di s (n0, k0) = di s (n, k) then c k else 0) = (if n = n0 \<and> k = k0 then c k else 0)"
      by auto
  qed
  also have "\<dots> = (if n = n0 then c k0 else 0)"
  proof (cases "n = n0")
    case True
    have "(\<Sum>k\<leftarrow>[1 ..< nZ s - 1]. if k = k0 then c k else 0) = c k0"
      by (rule sum_list_single) (use assms in simp_all)
    with True show ?thesis by simp
  next
    case False
    then show ?thesis by simp
  qed
  finally show ?thesis .
qed

lemma row_miss:
  assumes "\<And>k. 1 \<le> k \<Longrightarrow> k < nZ s - 1 \<Longrightarrow> j \<noteq> di s (n, k)"
  shows "row s n c j = 0"
  unfolding row_def by (rule sum_list_miss) (use assms in auto)

lemma modeT_at:
  assumes "1 \<le> k0" "k0 < nZ s - 1"
  shows "modeT s n (di s (n0, k0)) =
     (if n = n0 then fromMeanT s n0 k0
        + (\<Sum>m\<leftarrow>[1 ..< n0]. triad_val (tmp s) (- 1) s m (n0 - m) k0)
        + (\<Sum>m\<leftarrow>[n0 + 1 ..< nN s]. triad_val (tmp s) 1 s m (m - n0) k0)
        + (\<Sum>m\<leftarrow>[1 ..< nN s - n0]. triad_val (tmp s) 1 s m (n0 + m) k0)
      else 0)"
  by (cases "n = n0") (simp_all add: modeT_def row_at[OF assms])

lemma modeO_at:
  assumes "1 \<le> k0" "k0 < nZ s - 1"
  shows "modeO s n (di s (n0, k0)) =
     (if n = n0 then
          (\<Sum>m\<leftarrow>[1 ..< n0]. triad_val (omg s) (- 1) s m (n0 - m) k0)
        + (\<Sum>m\<leftarrow>[n0 + 1 ..< nN s]. triad_val (omg s) 1 s m (m - n0) k0)
        + (\<Sum>m\<leftarrow>[1 ..< nN s - n0]. - triad_val (omg s) 1 s m (n0 + m) k0)
      else 0)"
  by (cases "n = n0") (simp_all add: modeO_def row_at[OF assms])

text \<open>
  Claim C2. The factor of the source is \<^verbatim>\<open>M_PI/(2*a)\<close> with \<^verbatim>\<open>2*a\<close> an \<^verbatim>\<open>int\<close> product, the value \<open>two_a\<close>; it is \<open>\<pi>/2a\<close> for an aspect ratio with \<open>2 a < 2\<^sup>3\<^sup>1\<close>, which the theorem assumes (beyond, the product overflows: \<open>two_a_wraps\<close>). The nonlinear pass always completes on a well-formed simulator, and for every mode \<open>1 \<le> n < nN\<close> and interior row \<open>k\<close> it adds to \<open>dT/dt[n,k]\<close> and \<open>d\<omega>/dt[n,k]\<close> of the current slot the sum of the contribution from the mean mode and of the three triad cases. The case \<open>n = o - m\<close>, with \<open>m\<close> from 1 to \<open>nN - n - 1\<close> and \<open>o = n + m\<close>, contributes \<open>- (\<pi>/2a) (m d\<psi>\<^sub>o/dz T\<^sub>m + o dT\<^sub>m/dz \<psi>\<^sub>o)\<close> to \<open>dT/dt\<close> and, with the opposite sign, \<open>+ (\<pi>/2a) (m d\<psi>\<^sub>o/dz \<omega>\<^sub>m + o d\<omega>\<^sub>m/dz \<psi>\<^sub>o)\<close> to \<open>d\<omega>/dt\<close>; the other two cases are the values \<open>triad_val\<close> with the sign of the source.
\<close>

theorem nonlinear_triad_contributions:
  assumes "wf_sim b s" and "1 \<le> n" and "n < nN s" and "1 \<le> k" and "k \<le> nZ s - 2"
    and "2 * a s < 2 ^ 31"
  shows "\<exists>s'. computeNonLinearDerivatives s = Inr s' \<and>
     two_a s = 2 * real (a s) \<and>
     dTmpdt s' ! (current s * nZ s * nN s + nZ s * n + k) =
       dTmpdt s ! (current s * nZ s * nN s + nZ s * n + k)
       + fromMeanT s n k
       + (\<Sum>m\<leftarrow>[1 ..< n]. triad_val (tmp s) (- 1) s m (n - m) k)
       + (\<Sum>m\<leftarrow>[n + 1 ..< nN s]. triad_val (tmp s) 1 s m (m - n) k)
       + (\<Sum>m\<leftarrow>[1 ..< nN s - n].
            - (M_PI / (2 * real (a s))) *
              (real m * dfdz (psi s) (nZ s * (n + m) + k) (dz s) * tmp s ! (nZ s * m + k)
               + real (n + m) * dfdz (tmp s) (nZ s * m + k) (dz s) * psi s ! (nZ s * (n + m) + k)))
     \<and>
     dOmgdt s' ! (current s * nZ s * nN s + nZ s * n + k) =
       dOmgdt s ! (current s * nZ s * nN s + nZ s * n + k)
       + (\<Sum>m\<leftarrow>[1 ..< n]. triad_val (omg s) (- 1) s m (n - m) k)
       + (\<Sum>m\<leftarrow>[n + 1 ..< nN s]. triad_val (omg s) 1 s m (m - n) k)
       + (\<Sum>m\<leftarrow>[1 ..< nN s - n].
            M_PI / (2 * real (a s)) *
              (real m * dfdz (psi s) (nZ s * (n + m) + k) (dz s) * omg s ! (nZ s * m + k)
               + real (n + m) * dfdz (omg s) (nZ s * m + k) (dz s) * psi s ! (nZ s * (n + m) + k)))"
proof -
  let ?j = "di s (n, k)"
  have Z: "3 \<le> nZ s" and c: "current s < 2"
    and lT: "length (dTmpdt s) = 2 * nN s * nZ s" and lO: "length (dOmgdt s) = 2 * nN s * nZ s"
    using assms(1) by (simp_all add: wf_sim_def)
  have k1: "k < nZ s - 1" and kZ: "k < nZ s" using assms(5) Z by arith+
  have j: "?j < 2 * nN s * nZ s"
    unfolding di_def prod.case by (rule slot_bound[OF c assms(3) kZ])
  have ta: "two_a s = 2 * real (a s)" by (rule two_a_in_range[OF assms(6)])
  have jdef: "current s * nZ s * nN s + nZ s * n + k = ?j"
    by (simp add: di_def mult.commute)
  note acc = accum_nonlinear_pure[of s, unfolded accum_at_def]
  have n_mem: "n \<in> set [1 ..< nN s]" using assms(2,3) by simp
  have r0: "row s 0 c ?j = 0" for c
    using row_at[OF assms(4) k1, of 0 c n] assms(2) by simp
  have T: "(\<Sum>n'\<leftarrow>[1 ..< nN s]. modeT s n' ?j) =
      fromMeanT s n k
        + (\<Sum>m\<leftarrow>[1 ..< n]. triad_val (tmp s) (- 1) s m (n - m) k)
        + (\<Sum>m\<leftarrow>[n + 1 ..< nN s]. triad_val (tmp s) 1 s m (m - n) k)
        + (\<Sum>m\<leftarrow>[1 ..< nN s - n]. triad_val (tmp s) 1 s m (n + m) k)"
  proof -
    let ?F = "\<lambda>n. fromMeanT s n k
        + (\<Sum>m\<leftarrow>[1 ..< n]. triad_val (tmp s) (- 1) s m (n - m) k)
        + (\<Sum>m\<leftarrow>[n + 1 ..< nN s]. triad_val (tmp s) 1 s m (m - n) k)
        + (\<Sum>m\<leftarrow>[1 ..< nN s - n]. triad_val (tmp s) 1 s m (n + m) k)"
    have "modeT s n' ?j = (if n' = n then ?F n' else 0)" for n'
      unfolding modeT_at[OF assms(4) k1] by simp
    then have "(\<Sum>n'\<leftarrow>[1 ..< nN s]. modeT s n' ?j) =
          (\<Sum>n'\<leftarrow>[1 ..< nN s]. if n' = n then ?F n' else 0)"
      by simp
    also have "\<dots> = ?F n" by (rule sum_list_single[OF _ n_mem]) simp
    finally show ?thesis .
  qed
  have O: "(\<Sum>n'\<leftarrow>[1 ..< nN s]. modeO s n' ?j) =
          (\<Sum>m\<leftarrow>[1 ..< n]. triad_val (omg s) (- 1) s m (n - m) k)
        + (\<Sum>m\<leftarrow>[n + 1 ..< nN s]. triad_val (omg s) 1 s m (m - n) k)
        + (\<Sum>m\<leftarrow>[1 ..< nN s - n]. - triad_val (omg s) 1 s m (n + m) k)"
  proof -
    let ?F = "\<lambda>n. (\<Sum>m\<leftarrow>[1 ..< n]. triad_val (omg s) (- 1) s m (n - m) k)
        + (\<Sum>m\<leftarrow>[n + 1 ..< nN s]. triad_val (omg s) 1 s m (m - n) k)
        + (\<Sum>m\<leftarrow>[1 ..< nN s - n]. - triad_val (omg s) 1 s m (n + m) k)"
    have "modeO s n' ?j = (if n' = n then ?F n' else 0)" for n'
      unfolding modeO_at[OF assms(4) k1] by simp
    then have "(\<Sum>n'\<leftarrow>[1 ..< nN s]. modeO s n' ?j) =
          (\<Sum>n'\<leftarrow>[1 ..< nN s]. if n' = n then ?F n' else 0)"
      by simp
    also have "\<dots> = ?F n" by (rule sum_list_single[OF _ n_mem]) simp
    finally show ?thesis .
  qed
  have c3T: "triad_val (tmp s) 1 s m (n + m) k =
      - (M_PI / (2 * real (a s))) *
        (real m * dfdz (psi s) (nZ s * (n + m) + k) (dz s) * tmp s ! (nZ s * m + k)
         + real (n + m) * dfdz (tmp s) (nZ s * m + k) (dz s) * psi s ! (nZ s * (n + m) + k))" for m
    by (simp add: triad_val_def ta)
  have c3O: "- triad_val (omg s) 1 s m (n + m) k =
      M_PI / (2 * real (a s)) *
        (real m * dfdz (psi s) (nZ s * (n + m) + k) (dz s) * omg s ! (nZ s * m + k)
         + real (n + m) * dfdz (omg s) (nZ s * m + k) (dz s) * psi s ! (nZ s * (n + m) + k))" for m
    by (simp add: triad_val_def ta)
  have vT: "dTmpdt (nonlinear_pure s) ! ?j = dTmpdt s ! ?j
      + ((\<Sum>n'\<leftarrow>[1 ..< nN s]. row s 0 (meanT s n') ?j) + (\<Sum>n'\<leftarrow>[1 ..< nN s]. modeT s n' ?j))"
    using acc j lT by simp
  have vO: "dOmgdt (nonlinear_pure s) ! ?j = dOmgdt s ! ?j
      + ((\<Sum>n'\<leftarrow>[1 ..< nN s]. row s 0 (\<lambda>k. 0) ?j) + (\<Sum>n'\<leftarrow>[1 ..< nN s]. modeO s n' ?j))"
    using acc j lO by simp
  have z: "(\<Sum>n'\<leftarrow>[1 ..< nN s]. (0::real)) = 0" by simp
  show ?thesis
    unfolding jdef computeNonLinearDerivatives_eq
    by (rule exI[of _ "nonlinear_pure s"])
       (simp only: vT vO r0 z T O c3T c3O ta add_0_left add.assoc simp_thms)
qed

text \<open>
  The pass on the example with three modes, at mode 1 and row 1 (cell 4): the amounts \<open>2 \<pi>\<close> from the mean mode and \<open>- 21 \<pi> / 2\<close> from the triad \<open>m = 1\<close>, \<open>o = 2\<close> for the temperature, \<open>+ 7 \<pi> / 2\<close> for the vorticity.
\<close>

theorem nonlinear_triad_contributions_witness:
  "wf_sim ex_build ex_sim2 \<and> 2 * a ex_sim2 < 2 ^ 31 \<and>
   (\<exists>s'. computeNonLinearDerivatives ex_sim2 = Inr s' \<and>
      dTmpdt s' ! 4 = - (17 / 2) * M_PI \<and> dOmgdt s' ! 4 = 7 / 2 * M_PI)"
proof -
  have w: "wf_sim ex_build ex_sim2"
    by (simp add: wf_sim_def ex_build_def ex_sim2_def init_def)
  have f: "nN ex_sim2 = 3" "nZ ex_sim2 = 3" "current ex_sim2 = 0" "a ex_sim2 = 1" "dz ex_sim2 = 1 / 2"
    "dTmpdt ex_sim2 = replicate 18 0" "dOmgdt ex_sim2 = replicate 18 0"
    "tmp ex_sim2 = [1, 1 / 2, 0, 0, 1, 2, 0, 3, 0]" "psi ex_sim2 = [0, 0, 0, 0, 2, 0, 0, 5, 1]"
    "omg ex_sim2 = [0, 0, 0, 0, 7, 0, 0, 11, 0]"
    by (simp_all add: ex_sim2_def init_def)
  have u: "[Suc (Suc 0) ..< 3] = [2]" "[Suc 0 ..< 2] = [Suc 0]"
    by (simp_all add: upt_rec)
  have ta: "two_a ex_sim2 = 2" by (simp add: two_a_def int32_def f)
  from nonlinear_triad_contributions[OF w, of 1 1] w show ?thesis
    by (simp add: f u ta fromMeanT_def triad_val_def dfdz_def algebra_simps)
qed

subsection \<open>Frame of the kernels and the Adams-Bashforth update\<close>

lemma envF_update_assign: "envF (update_assign f n k s) = envF s"
  by (simp add: update_assign_def envF_def Let_def)

lemma envF_nZ: "envF s = envF s' \<Longrightarrow> nZ s = nZ s'"
  by (drule arg_cong[of _ _ nZ]) (simp add: envF_def)

lemma envF_nN: "envF s = envF s' \<Longrightarrow> nN s = nN s'"
  by (drule arg_cong[of _ _ nN]) (simp add: envF_def)

lemma envF_current: "envF s = envF s' \<Longrightarrow> current s = current s'"
  by (drule arg_cong[of _ _ current]) (simp add: envF_def)

lemma envF_dt: "envF s = envF s' \<Longrightarrow> dt s = dt s'"
  by (drule arg_cong[of _ _ dt]) (simp add: envF_def)

lemma envF_t: "envF s = envF s' \<Longrightarrow> t s = t s'"
  by (drule arg_cong[of _ _ t]) (simp add: envF_def)

lemma envF_totalTime: "envF s = envF s' \<Longrightarrow> totalTime s = totalTime s'"
  by (drule arg_cong[of _ _ totalTime]) (simp add: envF_def)

lemma envF_dTmpdt: "envF s = envF s' \<Longrightarrow> dTmpdt s = dTmpdt s'"
  by (drule arg_cong[of _ _ dTmpdt]) (simp add: envF_def)

lemma envF_dOmgdt: "envF s = envF s' \<Longrightarrow> dOmgdt s = dOmgdt s'"
  by (drule arg_cong[of _ _ dOmgdt]) (simp add: envF_def)

lemma envF_dXidt: "envF s = envF s' \<Longrightarrow> dXidt s = dXidt s'"
  by (drule arg_cong[of _ _ dXidt]) (simp add: envF_def)

lemma envF_psi: "envF s = envF s' \<Longrightarrow> psi s = psi s'"
  by (drule arg_cong[of _ _ psi]) (simp add: envF_def)

lemma envF_xi: "envF s = envF s' \<Longrightarrow> xi s = xi s'"
  by (drule arg_cong[of _ _ xi]) (simp add: envF_def)

lemmas envF_fields = envF_nZ envF_nN envF_current envF_dt envF_t envF_totalTime envF_dTmpdt
  envF_dOmgdt envF_dXidt envF_psi envF_xi

lemma envF_fold:
  assumes "\<And>x s. envF (g x s) = envF s"
  shows "envF (fold g xs s) = envF s"
  by (induction xs arbitrary: s) (simp_all add: assms)

lemma ci_envF: "envF s = envF s' \<Longrightarrow> ci s x = ci s' x"
  unfolding ci_def by (simp only: envF_fields[of s s'])

lemma abT_envF: "envF s = envF s' \<Longrightarrow> abT f s x = abT f s' x"
  unfolding abT_def by (simp only: envF_fields[of s s'])

lemma abO_envF: "envF s = envF s' \<Longrightarrow> abO f s x = abO f s' x"
  unfolding abO_def by (simp only: envF_fields[of s s'])

lemma tmp_update_assign:
  "tmp (update_assign f n k s) = (tmp s)[ci s (n, k) := tmp s ! ci s (n, k) + abT f s (n, k)]"
  by (simp add: update_assign_def Let_def ci_def abT_def)

lemma omg_update_assign:
  "omg (update_assign f n k s) = (omg s)[ci s (n, k) := omg s ! ci s (n, k) + abO f s (n, k)]"
  by (simp add: update_assign_def Let_def ci_def abO_def)

lemma envF_update_fold: "envF (fold (\<lambda>(n, k). update_assign f n k) xs s) = envF s"
  by (rule envF_fold) (simp add: envF_update_assign split: prod.split)

lemma tmp_update_fold:
  "tmp (fold (\<lambda>(n, k). update_assign f n k) xs s) =
     fold (\<lambda>x ys. ys[ci s x := ys ! ci s x + abT f s x]) xs (tmp s)"
proof (induction xs rule: rev_induct)
  case Nil
  then show ?case by simp
next
  case (snoc x xs)
  obtain n k where x: "x = (n, k)" by (cases x)
  note e = envF_update_fold[of f xs s]
  show ?case
    by (simp add: x tmp_update_assign snoc.IH[symmetric] ci_envF[OF e] abT_envF[OF e])
qed

lemma omg_update_fold:
  "omg (fold (\<lambda>(n, k). update_assign f n k) xs s) =
     fold (\<lambda>x ys. ys[ci s x := ys ! ci s x + abO f s x]) xs (omg s)"
proof (induction xs rule: rev_induct)
  case Nil
  then show ?case by simp
next
  case (snoc x xs)
  obtain n k where x: "x = (n, k)" by (cases x)
  note e = envF_update_fold[of f xs s]
  show ?case
    by (simp add: x omg_update_assign snoc.IH[symmetric] ci_envF[OF e] abO_envF[OF e])
qed

lemma fold_add_length [simp]:
  "length (fold (\<lambda>x ys. ys[idx x := ys ! idx x + val x]) xs ys) = length ys"
  by (induction xs arbitrary: ys) simp_all

lemma fold_add_nth:
  fixes ys :: "real list"
  assumes "j < length ys"
  shows "fold (\<lambda>x ys. ys[idx x := ys ! idx x + val x]) xs ys ! j =
           ys ! j + (\<Sum>x\<leftarrow>xs. if j = idx x then val x else 0)"
  using assms
proof (induction xs arbitrary: ys)
  case Nil
  then show ?case by simp
next
  case (Cons x xs)
  have l: "j < length (ys[idx x := ys ! idx x + val x])" using Cons.prems by simp
  show ?case
    using Cons.IH[OF l] Cons.prems by (simp add: nth_list_update)
qed

lemma sum_list_single_idx:
  assumes "distinct xs" and "y \<in> set xs"
    and "\<And>x. x \<in> set xs \<Longrightarrow> idx y = idx x \<Longrightarrow> x = y"
  shows "(\<Sum>x\<leftarrow>xs. if idx y = idx x then v x else (0::real)) = v y"
proof -
  have "(\<Sum>x\<leftarrow>xs. if idx y = idx x then v x else 0) = (\<Sum>x\<leftarrow>xs. if x = y then v x else 0)"
    by (rule arg_cong[where f=sum_list], rule map_cong[OF refl]) (use assms(3) in auto)
  also have "\<dots> = v y" by (rule sum_list_single[OF assms(1,2)])
  finally show ?thesis .
qed

lemma ci_inj:
  assumes "k < nZ s" "k' < nZ s" "ci s (n, k) = ci s (n', k')"
  shows "n = n' \<and> k = k'"
  using idx_inj[OF assms(1,2), of 0 n n'] assms(3) by (simp add: ci_def)

lemma update_cell:
  fixes F :: "real list"
  assumes "distinct ns" "n \<in> set ns" "k < nZ s" "n * nZ s + k < length F"
  shows "fold (\<lambda>x ys. ys[ci s x := ys ! ci s x + v x]) (List.product ns [0 ..< nZ s]) F
           ! (n * nZ s + k) = F ! (n * nZ s + k) + v (n, k)"
proof -
  let ?xs = "List.product ns [0 ..< nZ s]"
  have j: "ci s (n, k) < length F" using assms(4) by (simp add: ci_def)
  have "fold (\<lambda>x ys. ys[ci s x := ys ! ci s x + v x]) ?xs F ! ci s (n, k) =
          F ! ci s (n, k) + (\<Sum>x\<leftarrow>?xs. if ci s (n, k) = ci s x then v x else 0)"
    by (rule fold_add_nth[OF j])
  also have "(\<Sum>x\<leftarrow>?xs. if ci s (n, k) = ci s x then v x else 0) = v (n, k)"
  proof (rule sum_list_single_idx)
    show "distinct ?xs" using assms(1) by (simp add: distinct_product)
    show "(n, k) \<in> set ?xs" using assms(2,3) by simp
    fix x assume x: "x \<in> set ?xs" and e: "ci s (n, k) = ci s x"
    obtain n' k' where xx: "x = (n', k')" by (cases x)
    from x have "k' < nZ s" by (simp add: xx)
    from ci_inj[OF assms(3) this, of n n'] e show "x = (n, k)" by (simp add: xx)
  qed
  finally show ?thesis by (simp add: ci_def)
qed

lemma update_cell_full:
  fixes F :: "real list"
  assumes "n < nN s" "k < nZ s" "length F = nN s * nZ s"
  shows "fold (\<lambda>x ys. ys[ci s x := ys ! ci s x + v x]) (List.product [0 ..< nN s] [0 ..< nZ s]) F
           ! (n * nZ s + k) = F ! (n * nZ s + k) + v (n, k)"
  by (rule update_cell) (use assms cell_bound[OF assms(1,2)] in simp_all)

lemma tmp_update_pure:
  assumes "n < nN s" "k < nZ s" "length (tmp s) = nN s * nZ s"
  shows "tmp (update_pure f s) ! (n * nZ s + k) = tmp s ! (n * nZ s + k) + abT f s (n, k)"
  unfolding update_pure_def tmp_update_fold by (rule update_cell_full[OF assms])

lemma omg_update_pure:
  assumes "n < nN s" "k < nZ s" "length (omg s) = nN s * nZ s"
  shows "omg (update_pure f s) ! (n * nZ s + k) = omg s ! (n * nZ s + k) + abO f s (n, k)"
  unfolding update_pure_def omg_update_fold by (rule update_cell_full[OF assms])

lemma envF_update_pure: "envF (update_pure f s) = envF s"
  unfolding update_pure_def by (rule envF_update_fold)

lemma update_mode_Inr:
  "update_mode b f n s = Inr s' \<Longrightarrow> s' = fold (update_assign f n) [0 ..< nZ s] s"
  by (auto simp: update_mode_def bindE_def assert_def split: if_splits)

lemma updateTmpAndOmg_Inr:
  assumes "updateTmpAndOmg b f s = Inr s'"
  shows "s' = update_pure f s"
proof -
  have step: "update_mode b f n u = Inr u' \<Longrightarrow> nZ u = nZ s \<Longrightarrow>
      u' = fold (update_assign f n) [0 ..< nZ s] u" for n u u'
    using update_mode_Inr[of b f n u u'] by simp
  have inv: "nZ (fold (update_assign f n) [0 ..< nZ s] u) = nZ u" for n u
    by (rule envF_nZ, rule envF_fold, rule envF_update_assign)
  have "forM xs (update_mode b f) u = Inr s' \<Longrightarrow> nZ u = nZ s \<Longrightarrow>
      s' = fold (\<lambda>n. fold (update_assign f n) [0 ..< nZ s]) xs u" for xs u
  proof (induction xs arbitrary: u)
    case Nil
    then show ?case by simp
  next
    case (Cons n xs)
    from Cons.prems(1) obtain u1 where u1: "update_mode b f n u = Inr u1"
      and r: "forM xs (update_mode b f) u1 = Inr s'"
      by (auto split: sum.splits)
    have e1: "u1 = fold (update_assign f n) [0 ..< nZ s] u" by (rule step[OF u1 Cons.prems(2)])
    have "nZ u1 = nZ s" unfolding e1 using inv[of n u] Cons.prems(2) by simp
    from Cons.IH[OF r this] show ?case by (simp add: e1)
  qed
  from this[of "[0 ..< nN s]" s] assms show ?thesis
    by (simp add: updateTmpAndOmg_def update_pure_def fold_product)
qed

lemma dXidt_fold_linear:
  assumes "DDC b"
  shows "dXidt (fold (\<lambda>(n, k). linear_assign b l n k) xs s) =
     fold (\<lambda>x ys. ys[di s x := (\<lambda>(n, k). linX l s n k) x]) xs (dXidt s)"
proof (induction xs rule: rev_induct)
  case Nil
  then show ?case by simp
next
  case (snoc x xs)
  obtain n k where x: "x = (n, k)" by (cases x)
  let ?s1 = "fold (\<lambda>(n, k). linear_assign b l n k) xs s"
  have e: "env ?s1 = env s"
    by (rule env_fold) (simp add: env_linear_assign split: prod.split)
  show ?case
    by (simp add: x assms dXidt_linear_assign snoc.IH[symmetric] di_env[OF e] linX_env[OF e])
qed

lemma dXidt_fold_linear_off:
  assumes "\<not> DDC b"
  shows "dXidt (fold (\<lambda>(n, k). linear_assign b l n k) xs s) = dXidt s"
  by (induction xs rule: rev_induct) (simp_all add: assms dXidt_linear_assign split: prod.split)

lemma env_linear_pass:
  assumes "computeLinearDerivatives b l s = Inr s'"
  shows "env s' = env s"
  unfolding computeLinearDerivatives_Inr[OF assms]
  by (rule env_fold) (simp add: env_linear_assign split: prod.split)

lemma linear_cells_interior:
  assumes "x \<in> set (List.product [l ..< nN s] [1 ..< nZ s - 1])"
  shows "interior_current s (di s x)"
proof -
  obtain n k where x: "x = (n, k)" by (cases x)
  from assms have n: "n < nN s" and k1: "1 \<le> k" and k2: "k < nZ s - 1" by (simp_all add: x)
  from k2 have "k < nZ s" "k \<le> nZ s - 2" by arith+
  with n k1 show ?thesis unfolding interior_current_def x di_def prod.case by blast
qed

lemma linear_frame:
  assumes r: "computeLinearDerivatives b l s = Inr s'" and j: "\<not> interior_current s j"
  shows "dTmpdt s' ! j = dTmpdt s ! j" "dOmgdt s' ! j = dOmgdt s ! j" "dXidt s' ! j = dXidt s ! j"
proof -
  let ?xs = "List.product [l ..< nN s] [1 ..< nZ s - 1]"
  have m: "j \<notin> di s ` set ?xs" using linear_cells_interior[of _ l s] j by auto
  note s' = computeLinearDerivatives_Inr[OF r]
  show "dTmpdt s' ! j = dTmpdt s ! j"
    unfolding s' dTmpdt_fold_linear by (rule fold_upd_other[OF m])
  show "dOmgdt s' ! j = dOmgdt s ! j"
    unfolding s' dOmgdt_fold_linear by (rule fold_upd_other[OF m])
  show "dXidt s' ! j = dXidt s ! j"
  proof (cases "DDC b")
    case True
    show ?thesis unfolding s' dXidt_fold_linear[OF True] by (rule fold_upd_other[OF m])
  next
    case False
    show ?thesis unfolding s' dXidt_fold_linear_off[OF False] ..
  qed
qed

lemma linear_lengths:
  assumes r: "computeLinearDerivatives b l s = Inr s'"
  shows "length (dTmpdt s') = length (dTmpdt s)" "length (dOmgdt s') = length (dOmgdt s)"
    "length (dXidt s') = length (dXidt s)"
  unfolding computeLinearDerivatives_Inr[OF r] dTmpdt_fold_linear dOmgdt_fold_linear
  by (cases "DDC b"; simp add: dXidt_fold_linear dXidt_fold_linear_off)+

lemma sum_list_zero:
  assumes "\<And>x. x \<in> set xs \<Longrightarrow> f x = (0::real)"
  shows "(\<Sum>x\<leftarrow>xs. f x) = 0"
  using assms by (induction xs) simp_all

lemma row_not_interior:
  assumes j: "\<not> interior_current s j" and n: "n < nN s"
  shows "row s n c j = 0"
proof (rule row_miss)
  fix k assume k: "1 \<le> k" "k < nZ s - 1"
  then have "k < nZ s" "k \<le> nZ s - 2" by arith+
  with k n have "interior_current s (di s (n, k))"
    unfolding interior_current_def di_def prod.case by blast
  with j show "j \<noteq> di s (n, k)" by auto
qed

lemma nonlinear_frame:
  assumes j: "\<not> interior_current s j"
  shows "j < length (dTmpdt s) \<Longrightarrow> dTmpdt (nonlinear_pure s) ! j = dTmpdt s ! j"
    and "j < length (dOmgdt s) \<Longrightarrow> dOmgdt (nonlinear_pure s) ! j = dOmgdt s ! j"
    and "dXidt (nonlinear_pure s) = dXidt s"
    and "env (nonlinear_pure s) = env s"
    and "length (dTmpdt (nonlinear_pure s)) = length (dTmpdt s)"
    and "length (dOmgdt (nonlinear_pure s)) = length (dOmgdt s)"
proof -
  note acc = accum_nonlinear_pure[of s, unfolded accum_at_def]
  have r0: "(\<Sum>n\<leftarrow>[1 ..< nN s]. row s 0 (c n) j) = 0" for c
    by (rule sum_list_zero, rule row_not_interior[OF j]) simp
  have mT: "(\<Sum>n\<leftarrow>[1 ..< nN s]. modeT s n j) = 0"
  proof (rule sum_list_zero)
    fix n assume "n \<in> set [1 ..< nN s]"
    then have n: "n < nN s" by simp
    show "modeT s n j = 0"
      unfolding modeT_def by (simp add: row_not_interior[OF j n])
  qed
  have mO: "(\<Sum>n\<leftarrow>[1 ..< nN s]. modeO s n j) = 0"
  proof (rule sum_list_zero)
    fix n assume "n \<in> set [1 ..< nN s]"
    then have n: "n < nN s" by simp
    show "modeO s n j = 0"
      unfolding modeO_def by (simp add: row_not_interior[OF j n])
  qed
  show "j < length (dTmpdt s) \<Longrightarrow> dTmpdt (nonlinear_pure s) ! j = dTmpdt s ! j"
    using acc r0[of "\<lambda>n. meanT s n"] mT by simp
  show "j < length (dOmgdt s) \<Longrightarrow> dOmgdt (nonlinear_pure s) ! j = dOmgdt s ! j"
    using acc r0[of "\<lambda>n k. 0"] mO by simp
  show "dXidt (nonlinear_pure s) = dXidt s" using acc by simp
  show "env (nonlinear_pure s) = env s" using acc by simp
  show "length (dTmpdt (nonlinear_pure s)) = length (dTmpdt s)" using acc by simp
  show "length (dOmgdt (nonlinear_pure s)) = length (dOmgdt s)" using acc by simp
qed

lemma slot_inj:
  fixes Z :: nat
  assumes "n < N" "k < Z" "n' < N" "k' < Z"
    and "c * Z * N + n * Z + k = c' * Z * N + n' * Z + k'"
  shows "c = c' \<and> n = n' \<and> k = k'"
proof -
  have a: "n * Z + k < N * Z" and a': "n' * Z + k' < N * Z"
    by (rule cell_bound[OF assms(1,2)], rule cell_bound[OF assms(3,4)])
  have e: "0 + c * (N * Z) + (n * Z + k) = 0 + c' * (N * Z) + (n' * Z + k')"
    using assms(5) by (simp add: ac_simps)
  from idx_inj[OF a a' e] have c: "c = c'" and r: "n * Z + k = n' * Z + k'" by simp_all
  from idx_inj[OF assms(2,4), of 0 n n'] r have "n = n' \<and> k = k'" by simp
  with c show ?thesis by simp
qed

lemma boundary_not_interior:
  assumes Z: "3 \<le> nZ s" and n: "n < nN s"
  shows "\<not> interior_current s (c * nZ s * nN s + n * nZ s)"
    and "\<not> interior_current s (c * nZ s * nN s + n * nZ s + (nZ s - 1))"
proof -
  show "\<not> interior_current s (c * nZ s * nN s + n * nZ s)"
  proof
    assume "interior_current s (c * nZ s * nN s + n * nZ s)"
    then obtain n' k where h: "n' < nN s" "k < nZ s" "1 \<le> k"
      "c * nZ s * nN s + n * nZ s + 0 = current s * nZ s * nN s + n' * nZ s + k"
      unfolding interior_current_def by auto
    have "0 < nZ s" using Z by simp
    from slot_inj[OF n this h(1,2) h(4)] h(3) show False by simp
  qed
  show "\<not> interior_current s (c * nZ s * nN s + n * nZ s + (nZ s - 1))"
  proof
    assume "interior_current s (c * nZ s * nN s + n * nZ s + (nZ s - 1))"
    then obtain n' k where h: "n' < nN s" "k < nZ s" "k \<le> nZ s - 2"
      "c * nZ s * nN s + n * nZ s + (nZ s - 1) = current s * nZ s * nN s + n' * nZ s + k"
      unfolding interior_current_def by auto
    have "nZ s - 1 < nZ s" using Z by simp
    from slot_inj[OF n this h(1,2) h(4)] have "nZ s - 1 = k" by simp
    with h(3) Z show False by arith
  qed
qed

lemma boundary_zero_transfer:
  assumes Z: "3 \<le> nZ s" and bz: "boundary_zero s"
    and eZ: "nZ s' = nZ s" and eN: "nN s' = nN s"
    and T: "\<And>j. j < 2 * nN s * nZ s \<Longrightarrow> \<not> interior_current s j \<Longrightarrow>
              dTmpdt s' ! j = dTmpdt s ! j \<and> dOmgdt s' ! j = dOmgdt s ! j"
  shows "boundary_zero s'"
  unfolding boundary_zero_def eZ eN
proof (intro allI impI)
  fix c n assume c: "c < (2::nat)" and n: "n < nN s"
  have Z0: "0 < nZ s" and Z1: "nZ s - 1 < nZ s" using Z by simp_all
  have b0: "c * nZ s * nN s + n * nZ s < 2 * nN s * nZ s"
    using slot_bound[OF c n Z0] by simp
  have b1: "c * nZ s * nN s + n * nZ s + (nZ s - 1) < 2 * nN s * nZ s"
    by (rule slot_bound[OF c n Z1])
  note i = boundary_not_interior[OF Z n, of c]
  from bz c n have z: "dTmpdt s ! (c * nZ s * nN s + n * nZ s) = 0"
    "dTmpdt s ! (c * nZ s * nN s + n * nZ s + (nZ s - 1)) = 0"
    "dOmgdt s ! (c * nZ s * nN s + n * nZ s) = 0"
    "dOmgdt s ! (c * nZ s * nN s + n * nZ s + (nZ s - 1)) = 0"
    unfolding boundary_zero_def by simp_all
  from T[OF b0 i(1)] T[OF b1 i(2)] z
  show "dTmpdt s' ! (c * nZ s * nN s + n * nZ s) = 0 \<and>
        dTmpdt s' ! (c * nZ s * nN s + n * nZ s + (nZ s - 1)) = 0 \<and>
        dOmgdt s' ! (c * nZ s * nN s + n * nZ s) = 0 \<and>
        dOmgdt s' ! (c * nZ s * nN s + n * nZ s + (nZ s - 1)) = 0"
    by simp
qed

lemma boundary_zero_linear:
  assumes w: "wf_sim b s" and bz: "boundary_zero s"
    and r: "computeLinearDerivatives b l s = Inr s'"
  shows "boundary_zero s'"
proof (rule boundary_zero_transfer[OF _ bz])
  show "3 \<le> nZ s" using w by (simp add: wf_sim_def)
  show "nZ s' = nZ s" "nN s' = nN s"
    using env_linear_pass[OF r] by (rule env_nZ, rule env_nN)
  show "\<And>j. j < 2 * nN s * nZ s \<Longrightarrow> \<not> interior_current s j \<Longrightarrow>
      dTmpdt s' ! j = dTmpdt s ! j \<and> dOmgdt s' ! j = dOmgdt s ! j"
    using linear_frame[OF r] by simp
qed

lemma boundary_zero_nonlinear:
  assumes w: "wf_sim b s" and bz: "boundary_zero s"
  shows "boundary_zero (nonlinear_pure s)"
proof (rule boundary_zero_transfer[OF _ bz])
  show "3 \<le> nZ s" using w by (simp add: wf_sim_def)
  have e: "env (nonlinear_pure s) = env s" by (rule accum_env[OF accum_nonlinear_pure])
  show "nZ (nonlinear_pure s) = nZ s" "nN (nonlinear_pure s) = nN s"
    using e by (rule env_nZ, rule env_nN)
  have l: "length (dTmpdt s) = 2 * nN s * nZ s" "length (dOmgdt s) = 2 * nN s * nZ s"
    using w by (simp_all add: wf_sim_def)
  show "\<And>j. j < 2 * nN s * nZ s \<Longrightarrow> \<not> interior_current s j \<Longrightarrow>
      dTmpdt (nonlinear_pure s) ! j = dTmpdt s ! j \<and> dOmgdt (nonlinear_pure s) ! j = dOmgdt s ! j"
    using nonlinear_frame(1,2)[of s] l by simp
qed

lemma ab_zero [simp]: "adamsBashforth 0 0 f d = 0"
  by (simp add: adamsBashforth_def)

lemma boundary_zero_ab:
  assumes c: "current s < 2" and bz: "boundary_zero s" and n: "n < nN s"
  shows "abT f s (n, 0) = 0" "abT f s (n, nZ s - 1) = 0"
    "abO f s (n, 0) = 0" "abO f s (n, nZ s - 1) = 0"
proof -
  have c': "(current s + 1) mod 2 < 2" by simp
  from bz[unfolded boundary_zero_def, rule_format, OF c n]
    bz[unfolded boundary_zero_def, rule_format, OF c' n]
  show "abT f s (n, 0) = 0" "abT f s (n, nZ s - 1) = 0"
    "abO f s (n, 0) = 0" "abO f s (n, nZ s - 1) = 0"
    by (simp_all add: abT_def abO_def)
qed

lemma update_boundary:
  assumes w: "wf_sim b s" and bz: "boundary_zero s" and n: "n < nN s"
  shows "tmp (update_pure f s) ! (n * nZ s) = tmp s ! (n * nZ s)"
    "tmp (update_pure f s) ! (n * nZ s + (nZ s - 1)) = tmp s ! (n * nZ s + (nZ s - 1))"
    "omg (update_pure f s) ! (n * nZ s) = omg s ! (n * nZ s)"
    "omg (update_pure f s) ! (n * nZ s + (nZ s - 1)) = omg s ! (n * nZ s + (nZ s - 1))"
proof -
  have Z0: "0 < nZ s" and Z1: "nZ s - 1 < nZ s" and c: "current s < 2"
    and lT: "length (tmp s) = nN s * nZ s" and lO: "length (omg s) = nN s * nZ s"
    using w by (simp_all add: wf_sim_def)
  note z = boundary_zero_ab[OF c bz n, of f]
  show "tmp (update_pure f s) ! (n * nZ s) = tmp s ! (n * nZ s)"
    using tmp_update_pure[OF n Z0 lT, of f] z by simp
  show "tmp (update_pure f s) ! (n * nZ s + (nZ s - 1)) = tmp s ! (n * nZ s + (nZ s - 1))"
    using tmp_update_pure[OF n Z1 lT, of f] z by simp
  show "omg (update_pure f s) ! (n * nZ s) = omg s ! (n * nZ s)"
    using omg_update_pure[OF n Z0 lO, of f] z by simp
  show "omg (update_pure f s) ! (n * nZ s + (nZ s - 1)) = omg s ! (n * nZ s + (nZ s - 1))"
    using omg_update_pure[OF n Z1 lO, of f] z by simp
qed

lemma boundary_zero_envF:
  assumes "envF s' = envF s" and "boundary_zero s"
  shows "boundary_zero s'"
  using assms(2) unfolding boundary_zero_def
  by (simp only: envF_nZ[OF assms(1)] envF_nN[OF assms(1)] envF_dTmpdt[OF assms(1)]
        envF_dOmgdt[OF assms(1)])

text \<open>
  Claim C10. On a well-formed simulator, a tendency kernel that completes leaves every cell of
  the three tendency buffers that is not an interior row \<open>1 \<le> k \<le> nZ - 2\<close> of the current
  slot as it was; the boundary rows \<open>k = 0\<close> and \<open>k = nZ - 1\<close> of both slots are such cells,
  so both kernels keep boundary rows that are zero at zero. When the boundary rows of both
  slots of \<^verbatim>\<open>dTmpdt\<close> and \<^verbatim>\<open>dOmgdt\<close> are zero, an Adams-Bashforth update that completes
  leaves \<open>T[n,0]\<close>, \<open>T[n,nZ-1]\<close>, \<open>\<omega>[n,0]\<close> and \<open>\<omega>[n,nZ-1]\<close> of every mode unchanged, and
  leaves the tendency buffers as they were.
\<close>

theorem tendency_boundary_rows:
  assumes w: "wf_sim b s"
  shows "(\<forall>l s' j. computeLinearDerivatives b l s = Inr s' \<and> j < 2 * nN s * nZ s
             \<and> \<not> interior_current s j \<longrightarrow>
           dTmpdt s' ! j = dTmpdt s ! j \<and> dOmgdt s' ! j = dOmgdt s ! j
           \<and> dXidt s' ! j = dXidt s ! j)
       \<and> (\<forall>s' j. computeNonLinearDerivatives s = Inr s' \<and> j < 2 * nN s * nZ s
             \<and> \<not> interior_current s j \<longrightarrow>
           dTmpdt s' ! j = dTmpdt s ! j \<and> dOmgdt s' ! j = dOmgdt s ! j
           \<and> dXidt s' ! j = dXidt s ! j)
       \<and> (\<forall>c < 2. \<forall>n < nN s.
             c * nZ s * nN s + n * nZ s + (nZ s - 1) < 2 * nN s * nZ s
           \<and> \<not> interior_current s (c * nZ s * nN s + n * nZ s)
           \<and> \<not> interior_current s (c * nZ s * nN s + n * nZ s + (nZ s - 1)))
       \<and> (\<forall>l s'. boundary_zero s \<and> computeLinearDerivatives b l s = Inr s'
             \<longrightarrow> boundary_zero s')
       \<and> (\<forall>s'. boundary_zero s \<and> computeNonLinearDerivatives s = Inr s'
             \<longrightarrow> boundary_zero s')
       \<and> (\<forall>f s'. boundary_zero s \<and> updateTmpAndOmg b f s = Inr s' \<longrightarrow>
             boundary_zero s' \<and>
             (\<forall>n < nN s.
                tmp s' ! (n * nZ s) = tmp s ! (n * nZ s) \<and>
                tmp s' ! (n * nZ s + (nZ s - 1)) = tmp s ! (n * nZ s + (nZ s - 1)) \<and>
                omg s' ! (n * nZ s) = omg s ! (n * nZ s) \<and>
                omg s' ! (n * nZ s + (nZ s - 1)) = omg s ! (n * nZ s + (nZ s - 1))))"
proof -
  have Z: "3 \<le> nZ s"
    and l: "length (dTmpdt s) = 2 * nN s * nZ s" "length (dOmgdt s) = 2 * nN s * nZ s"
    using w by (simp_all add: wf_sim_def)
  have 1: "\<forall>l s' j. computeLinearDerivatives b l s = Inr s' \<and> j < 2 * nN s * nZ s
             \<and> \<not> interior_current s j \<longrightarrow>
           dTmpdt s' ! j = dTmpdt s ! j \<and> dOmgdt s' ! j = dOmgdt s ! j
           \<and> dXidt s' ! j = dXidt s ! j"
    using linear_frame by blast
  have 2: "\<forall>s' j. computeNonLinearDerivatives s = Inr s' \<and> j < 2 * nN s * nZ s
             \<and> \<not> interior_current s j \<longrightarrow>
           dTmpdt s' ! j = dTmpdt s ! j \<and> dOmgdt s' ! j = dOmgdt s ! j
           \<and> dXidt s' ! j = dXidt s ! j"
    using nonlinear_frame(1,2,3)[of s] l by (auto simp: computeNonLinearDerivatives_eq)
  have 3: "\<forall>c < 2. \<forall>n < nN s.
             c * nZ s * nN s + n * nZ s + (nZ s - 1) < 2 * nN s * nZ s
           \<and> \<not> interior_current s (c * nZ s * nN s + n * nZ s)
           \<and> \<not> interior_current s (c * nZ s * nN s + n * nZ s + (nZ s - 1))"
  proof (intro allI impI)
    fix c n assume c: "c < (2::nat)" and n: "n < nN s"
    have "nZ s - 1 < nZ s" using Z by simp
    from slot_bound[OF c n this] boundary_not_interior[OF Z n, of c]
    show "c * nZ s * nN s + n * nZ s + (nZ s - 1) < 2 * nN s * nZ s
           \<and> \<not> interior_current s (c * nZ s * nN s + n * nZ s)
           \<and> \<not> interior_current s (c * nZ s * nN s + n * nZ s + (nZ s - 1))"
      by simp
  qed
  have 4: "\<forall>l s'. boundary_zero s \<and> computeLinearDerivatives b l s = Inr s'
             \<longrightarrow> boundary_zero s'"
    using boundary_zero_linear[OF w] by blast
  have 5: "\<forall>s'. boundary_zero s \<and> computeNonLinearDerivatives s = Inr s'
             \<longrightarrow> boundary_zero s'"
    using boundary_zero_nonlinear[OF w] by (auto simp: computeNonLinearDerivatives_eq)
  have 6: "\<forall>f s'. boundary_zero s \<and> updateTmpAndOmg b f s = Inr s' \<longrightarrow>
             boundary_zero s' \<and>
             (\<forall>n < nN s.
                tmp s' ! (n * nZ s) = tmp s ! (n * nZ s) \<and>
                tmp s' ! (n * nZ s + (nZ s - 1)) = tmp s ! (n * nZ s + (nZ s - 1)) \<and>
                omg s' ! (n * nZ s) = omg s ! (n * nZ s) \<and>
                omg s' ! (n * nZ s + (nZ s - 1)) = omg s ! (n * nZ s + (nZ s - 1)))"
  proof (intro allI impI, elim conjE)
    fix f s' assume bz: "boundary_zero s" and r: "updateTmpAndOmg b f s = Inr s'"
    note s' = updateTmpAndOmg_Inr[OF r]
    have "boundary_zero s'" unfolding s'
      by (rule boundary_zero_envF[OF envF_update_pure bz])
    with update_boundary[OF w bz, of _ f]
    show "boundary_zero s' \<and>
             (\<forall>n < nN s.
                tmp s' ! (n * nZ s) = tmp s ! (n * nZ s) \<and>
                tmp s' ! (n * nZ s + (nZ s - 1)) = tmp s ! (n * nZ s + (nZ s - 1)) \<and>
                omg s' ! (n * nZ s) = omg s ! (n * nZ s) \<and>
                omg s' ! (n * nZ s + (nZ s - 1)) = omg s ! (n * nZ s + (nZ s - 1)))"
      unfolding s' by simp
  qed
  from 1 2 3 4 5 6 show ?thesis by (intro conjI)
qed

lemma forM_append:
  "forM (xs @ ys) body s = bindE (forM xs body s) (forM ys body)"
  by (induction xs arbitrary: s) (simp_all add: bindE_def split: sum.splits)

lemma updateTmpAndOmg_prefix:
  assumes w: "wf_sim b s" and ok: "update_asserts b f s" and m: "m \<le> nN s"
  shows "forM [0 ..< m] (update_mode b f) s =
           Inr (fold (\<lambda>(n, k). update_assign f n k) (List.product [0 ..< m] [0 ..< nZ s]) s)"
  using m
proof (induction m)
  case 0
  then show ?case by simp
next
  case (Suc m)
  let ?u = "fold (\<lambda>(n, k). update_assign f n k) (List.product [0 ..< m] [0 ..< nZ s]) s"
  define u1 where
    "u1 = fold (\<lambda>(n, k). update_assign f n k) (List.product [0 ..< Suc m] [0 ..< nZ s]) s"
  have mN: "m < nN s" using Suc.prems by simp
  have Z0: "0 < nZ s" and Z1: "nZ s - 1 < nZ s"
    and lT: "length (tmp s) = nN s * nZ s" and lO: "length (omg s) = nN s * nZ s"
    using w by (simp_all add: wf_sim_def)
  have IH: "forM [0 ..< m] (update_mode b f) s = Inr ?u" using Suc by simp
  have eu: "envF ?u = envF s" by (rule envF_update_fold)
  have Zu: "nZ ?u = nZ s" using eu by (rule envF_nZ)
  have u1: "fold (update_assign f m) [0 ..< nZ s] ?u = u1"
    unfolding u1_def by (simp add: fold_product[symmetric])
  have Zu1: "nZ u1 = nZ s" unfolding u1_def by (rule envF_nZ, rule envF_update_fold)
  have b0: "m * nZ s + 0 < length (tmp s)" "m * nZ s + 0 < length (omg s)"
    unfolding lT lO using cell_bound[OF mN Z0] by simp_all
  have b1: "m * nZ s + (nZ s - 1) < length (tmp s)" "m * nZ s + (nZ s - 1) < length (omg s)"
    unfolding lT lO using cell_bound[OF mN Z1] by simp_all
  have mem: "m \<in> set [0 ..< Suc m]" and d: "distinct [0 ..< Suc m]" by simp_all
  have v0: "tmp u1 ! (m * nZ s + 0) = tmp s ! (m * nZ s + 0) + abT f s (m, 0)"
    unfolding u1_def tmp_update_fold by (rule update_cell[OF d mem Z0 b0(1)])
  have v1: "tmp u1 ! (m * nZ s + (nZ s - 1)) = tmp s ! (m * nZ s + (nZ s - 1)) + abT f s (m, nZ s - 1)"
    unfolding u1_def tmp_update_fold by (rule update_cell[OF d mem Z1 b1(1)])
  have v2: "omg u1 ! (m * nZ s + 0) = omg s ! (m * nZ s + 0) + abO f s (m, 0)"
    unfolding u1_def omg_update_fold by (rule update_cell[OF d mem Z0 b0(2)])
  have v3: "omg u1 ! (m * nZ s + (nZ s - 1)) = omg s ! (m * nZ s + (nZ s - 1)) + abO f s (m, nZ s - 1)"
    unfolding u1_def omg_update_fold by (rule update_cell[OF d mem Z1 b1(2)])
  note a = ok[unfolded update_asserts_def, rule_format, OF mN]
  have Z2: "m * nZ s + nZ s - Suc 0 = m * nZ s + (nZ s - Suc 0)" using Z0 by simp
  have "update_mode b f m ?u = Inr u1"
    unfolding update_mode_def bindE_def Zu u1 sum.case assert_def
    using a v0 v1 v2 v3 by (cases "0 < m") (simp_all add: Zu1 Z2)
  then show ?case
    unfolding u1_def by (simp add: forM_append IH bindE_def)
qed

lemma updateTmpAndOmg_complete:
  assumes "wf_sim b s" and "update_asserts b f s"
  shows "updateTmpAndOmg b f s = Inr (update_pure f s)"
  unfolding updateTmpAndOmg_def update_pure_def
  by (rule updateTmpAndOmg_prefix[OF assms]) simp

lemma ex_sim_fields:
  "nN ex_sim = 2" "nZ ex_sim = 3" "current ex_sim = 0" "a ex_sim = 1" "dz ex_sim = 1 / 2"
  "dt ex_sim = 1 / 10" "t ex_sim = 0" "oodz2 ex_sim = 4"
  "dOmgdt ex_sim = replicate 12 0" "dTmpdt ex_sim = replicate 12 0"
  "tmp ex_sim = [1, 1 / 2, 0, 0, 1, 0]" "omg ex_sim = replicate 6 0"
  "psi ex_sim = [0, 0, 0, 0, 2, 0]"
  by (simp_all add: ex_sim_def init_def)

lemma ex_sim_wf: "wf_sim ex_build ex_sim"
  by (simp add: wf_sim_def ex_build_def ex_sim_def init_def)

lemma ex_sim_linear_pass:
  "computeLinearDerivatives ex_build 1 ex_sim = Inr (linear_assign ex_build 1 1 1 ex_sim)"
proof -
  have u: "[Suc 0 ..< 2] = [Suc 0]"
    by (simp add: upt_rec)
  have chk: "dOmgdt (linear_assign ex_build 1 1 1 ex_sim) ! 1 < EPSILON ex_build"
    by (simp add: dOmgdt_linear_assign di_def ex_sim_fields ex_build_def)
  show ?thesis
    using chk
    by (simp add: computeLinearDerivatives_def ex_sim_fields u linear_body_def Let_def assert_def)
qed

lemma ex_sim_boundary_zero: "boundary_zero ex_sim"
  by (simp add: boundary_zero_def ex_sim_fields)

lemma ex_sim_update_asserts: "update_asserts ex_build 1 ex_sim"
  unfolding update_asserts_def ex_sim_fields
  by (auto simp: less_2_cases_iff abT_def abO_def ex_sim_fields ex_build_def)

text \<open>
  On the example simulator, freshly constructed but for \<open>T\<close> and \<open>\<psi>\<close>: cell 5 is the upper boundary row of mode 1 in slot 0; the linear pass and the update complete.
\<close>

theorem tendency_boundary_rows_witness:
  "wf_sim ex_build ex_sim \<and> boundary_zero ex_sim
   \<and> computeLinearDerivatives ex_build 1 ex_sim = Inr (linear_assign ex_build 1 1 1 ex_sim)
   \<and> \<not> interior_current ex_sim 5
   \<and> dTmpdt (linear_assign ex_build 1 1 1 ex_sim) ! 5 = 0
   \<and> boundary_zero (linear_assign ex_build 1 1 1 ex_sim)
   \<and> updateTmpAndOmg ex_build 1 ex_sim = Inr (update_pure 1 ex_sim)
   \<and> tmp (update_pure 1 ex_sim) ! 0 = 1 \<and> omg (update_pure 1 ex_sim) ! 5 = 0"
proof -
  note w = ex_sim_wf and bz = ex_sim_boundary_zero and r = ex_sim_linear_pass
  note u = updateTmpAndOmg_complete[OF w ex_sim_update_asserts]
  note T = tendency_boundary_rows[OF w]
  have b: "5 < 2 * nN ex_sim * nZ ex_sim \<and> \<not> interior_current ex_sim 5"
    using T[THEN conjunct2, THEN conjunct2, THEN conjunct1, rule_format, of 0 1]
    by (simp add: ex_sim_fields)
  have 1: "dTmpdt (linear_assign ex_build 1 1 1 ex_sim) ! 5 = 0"
    using T[THEN conjunct1, rule_format, of 1 "linear_assign ex_build 1 1 1 ex_sim" 5] r b
    by (simp add: ex_sim_fields)
  have 2: "boundary_zero (linear_assign ex_build 1 1 1 ex_sim)"
    using T[THEN conjunct2, THEN conjunct2, THEN conjunct2, THEN conjunct1, rule_format,
        of 1 "linear_assign ex_build 1 1 1 ex_sim"] bz r by simp
  have 3: "tmp (update_pure 1 ex_sim) ! 0 = 1 \<and> omg (update_pure 1 ex_sim) ! 5 = 0"
    using T[THEN conjunct2, THEN conjunct2, THEN conjunct2, THEN conjunct2, THEN conjunct2,
        rule_format, of 1 "update_pure 1 ex_sim", OF conjI[OF bz u], THEN conjunct2, rule_format, of 0]
      T[THEN conjunct2, THEN conjunct2, THEN conjunct2, THEN conjunct2, THEN conjunct2,
        rule_format, of 1 "update_pure 1 ex_sim", OF conjI[OF bz u], THEN conjunct2, rule_format, of 1]
    by (simp add: ex_sim_fields)
  from w bz r b 1 2 u 3 show ?thesis by simp
qed

subsection \<open>Checkpoints and the kinetic-energy files\<close>

lemma block_all [simp]: "length xs = n \<Longrightarrow> block xs 0 n = xs"
  by (simp add: block_def)

lemma length_block: "off + n \<le> length xs \<Longrightarrow> length (block xs off n) = n"
  by (simp add: block_def)

lemma read_block_exact:
  assumes "length got = n" and "off + n \<le> length dst"
  shows "read_block dst off n (got @ rest, True) =
           (take off dst @ got @ drop (off + n) dst, (rest, True))"
  using assms by (simp add: read_block_def Let_def)

lemma slots_restore:
  assumes "length X = 2 * M" and "length D = 2 * M" and "c < 2"
  shows "take (((c + 1) mod 2) * M)
           (take (c * M) D @ block X (c * M) M @ drop (c * M + M) D)
         @ block X (((c + 1) mod 2) * M) M
         @ drop (((c + 1) mod 2) * M + M)
           (take (c * M) D @ block X (c * M) M @ drop (c * M + M) D) = X"
proof -
  have X: "take M X @ drop M X = X" by simp
  have l: "length (drop M X) = M" using assms(1) by simp
  from assms(3) consider "c = 0" | "c = 1" by arith
  then show ?thesis
  proof cases
    case 1
    have "take M X @ take M (drop M X) = X" using l X by simp
    with 1 assms show ?thesis by (simp add: block_def)
  next
    case 2
    have "take M X @ take M (drop M X) = X" using l X by simp
    with 2 assms show ?thesis by (simp add: block_def)
  qed
qed

lemma save_ok:
  assumes "can_write fs (saveFolder s @ ''vars'' @ strFromNumber b (saveNumber s) @ ''.dat'')"
  shows "save b (s, fs) =
     Inr (s\<lparr>saveNumber := saveNumber s + 1\<rparr>,
          write_file fs (saveFolder s @ ''vars'' @ strFromNumber b (saveNumber s) @ ''.dat'')
            (block (tmp s) 0 (nN s * nZ s) @ block (omg s) 0 (nN s * nZ s)
             @ block (psi s) 0 (nN s * nZ s)
             @ block (dTmpdt s) (current s * nZ s * nN s) (nN s * nZ s)
             @ block (dTmpdt s) (((current s + 1) mod 2) * nZ s * nN s) (nN s * nZ s)
             @ block (dOmgdt s) (current s * nZ s * nN s) (nN s * nZ s)
             @ block (dOmgdt s) (((current s + 1) mod 2) * nZ s * nN s) (nN s * nZ s)))"
  using assms by (simp add: save_def Let_def)

lemma save_fails:
  assumes "\<not> can_write fs (saveFolder s @ ''vars'' @ strFromNumber b (saveNumber s) @ ''.dat'')"
  shows "save b (s, fs) = Inl (CouldNotOpen (saveFolder s))"
  using assms by (simp add: save_def Let_def)

lemma load_fails:
  assumes "files fs name = None"
  shows "load name (s, fs) = Inl (CouldNotOpen name)"
  using assms by (simp add: load_def)

lemma load_exact:
  assumes f: "files fs name = Some (A1 @ A2 @ A3 @ B1 @ B2 @ C1 @ C2)"
    and l: "length A1 = nN s * nZ s" "length A2 = nN s * nZ s" "length A3 = nN s * nZ s"
      "length B1 = nN s * nZ s" "length B2 = nN s * nZ s"
      "length C1 = nN s * nZ s" "length C2 = nN s * nZ s"
    and ls: "length (tmp s) = nN s * nZ s" "length (omg s) = nN s * nZ s"
      "length (psi s) = nN s * nZ s"
      "length (dTmpdt s) = 2 * (nN s * nZ s)" "length (dOmgdt s) = 2 * (nN s * nZ s)"
    and c: "current s < 2"
  shows "load name (s, fs) =
     Inr (s\<lparr>tmp := A1, omg := A2, psi := A3,
            dTmpdt :=
              take (((current s + 1) mod 2) * nZ s * nN s)
                (take (current s * nZ s * nN s) (dTmpdt s) @ B1
                 @ drop (current s * nZ s * nN s + nN s * nZ s) (dTmpdt s))
              @ B2
              @ drop (((current s + 1) mod 2) * nZ s * nN s + nN s * nZ s)
                (take (current s * nZ s * nN s) (dTmpdt s) @ B1
                 @ drop (current s * nZ s * nN s + nN s * nZ s) (dTmpdt s)),
            dOmgdt :=
              take (((current s + 1) mod 2) * nZ s * nN s)
                (take (current s * nZ s * nN s) (dOmgdt s) @ C1
                 @ drop (current s * nZ s * nN s + nN s * nZ s) (dOmgdt s))
              @ C2
              @ drop (((current s + 1) mod 2) * nZ s * nN s + nN s * nZ s)
                (take (current s * nZ s * nN s) (dOmgdt s) @ C1
                 @ drop (current s * nZ s * nN s + nN s * nZ s) (dOmgdt s))\<rparr>, fs)"
proof -
  define M where "M = nN s * nZ s"
  define c1 where "c1 = current s * nZ s * nN s"
  define c2 where "c2 = ((current s + 1) mod 2) * nZ s * nN s"
  have cc: "c1 = 0 \<and> c2 = M \<or> c1 = M \<and> c2 = 0"
  proof -
    from c consider "current s = 0" | "current s = 1" by arith
    then show ?thesis by cases (simp_all add: c1_def c2_def M_def ac_simps)
  qed
  have b1: "c1 + M \<le> 2 * M" and b2: "c2 + M \<le> 2 * M" using cc by auto
  define D1 where "D1 = take c1 (dTmpdt s) @ B1 @ drop (c1 + M) (dTmpdt s)"
  define O1 where "O1 = take c1 (dOmgdt s) @ C1 @ drop (c1 + M) (dOmgdt s)"
  have lA: "length A1 = M" "length A2 = M" "length A3 = M" "length B1 = M" "length B2 = M"
    "length C1 = M" "length C2 = M"
    unfolding M_def by (rule l)+
  have lT: "0 + M \<le> length (tmp s)" "0 + M \<le> length (omg s)" "0 + M \<le> length (psi s)"
    unfolding M_def using ls(1-3) by simp_all
  have lD: "length (dTmpdt s) = 2 * M" "length (dOmgdt s) = 2 * M"
    unfolding M_def by (rule ls(4), rule ls(5))
  have lD1: "length D1 = 2 * M"
    unfolding D1_def using cc by (auto simp: lD lA)
  have lO1: "length O1 = 2 * M"
    unfolding O1_def using cc by (auto simp: lD lA)
  have e0: "take 0 xs @ ys @ drop (0 + M) xs = ys" if "length xs = M" for xs ys :: "real list"
    using that by simp
  have r1: "read_block (tmp s) 0 M (A1 @ A2 @ A3 @ B1 @ B2 @ C1 @ C2, True) =
              (A1, (A2 @ A3 @ B1 @ B2 @ C1 @ C2, True))"
    unfolding read_block_exact[OF lA(1) lT(1)] using ls(1) by (simp add: M_def)
  have r2: "read_block (omg s) 0 M (A2 @ A3 @ B1 @ B2 @ C1 @ C2, True) =
              (A2, (A3 @ B1 @ B2 @ C1 @ C2, True))"
    unfolding read_block_exact[OF lA(2) lT(2)] using ls(2) by (simp add: M_def)
  have r3: "read_block (psi s) 0 M (A3 @ B1 @ B2 @ C1 @ C2, True) =
              (A3, (B1 @ B2 @ C1 @ C2, True))"
    unfolding read_block_exact[OF lA(3) lT(3)] using ls(3) by (simp add: M_def)
  have r4: "read_block (dTmpdt s) c1 M (B1 @ B2 @ C1 @ C2, True) = (D1, (B2 @ C1 @ C2, True))"
    unfolding D1_def by (rule read_block_exact[OF lA(4)]) (simp add: lD b1)
  have r5: "read_block D1 c2 M (B2 @ C1 @ C2, True) =
              (take c2 D1 @ B2 @ drop (c2 + M) D1, (C1 @ C2, True))"
    by (rule read_block_exact[OF lA(5)]) (simp add: lD1 b2)
  have r6: "read_block (dOmgdt s) c1 M (C1 @ C2, True) = (O1, (C2, True))"
    unfolding O1_def by (rule read_block_exact[OF lA(6)]) (simp add: lD b1)
  have r7: "read_block O1 c2 M (C2, True) = (take c2 O1 @ C2 @ drop (c2 + M) O1, ([], True))"
    using read_block_exact[OF lA(7), of c2 O1 "[]"] lO1 b2 by simp
  have "load name (s, fs) =
      Inr (s\<lparr>tmp := A1, omg := A2, psi := A3,
             dTmpdt := take c2 D1 @ B2 @ drop (c2 + M) D1,
             dOmgdt := take c2 O1 @ C2 @ drop (c2 + M) O1\<rparr>, fs)"
    unfolding load_def prod.case f option.case Let_def
      M_def[symmetric] c1_def[symmetric] c2_def[symmetric]
    by (simp only: r1 r2 r3 r4 r5 r6 r7 prod.case)
  then show ?thesis
    unfolding D1_def O1_def c1_def c2_def M_def .
qed

lemma append_file_ro: "\<not> can_write fs name \<Longrightarrow> append_file fs name ds = fs"
  by (simp add: append_file_def)

lemma fold_append_file_ro:
  assumes "\<And>name. \<not> can_write fs name"
  shows "fold (\<lambda>n fs. append_file fs (nm n) (ds n)) ns fs = fs"
  by (induction ns) (simp_all add: append_file_ro assms)

lemma saveKineticEnergy_ro:
  assumes "\<And>name. \<not> can_write fs name"
  shows "saveKineticEnergy b (s, fs) =
           (s\<lparr>kePrev := keCurrent s, keCurrent := calcKineticEnergy s\<rparr>, fs)"
  unfolding saveKineticEnergy_def prod.case Let_def
  by (simp only: append_file_ro[OF assms] fold_append_file_ro[of fs, OF assms])

text \<open>
  Claim C5. On a well-formed simulator whose checkpoint file can be opened, \<^verbatim>\<open>save\<close> writes
  exactly \<open>7 nN nZ\<close> doubles, in the order \<open>T\<close>, \<open>\<omega>\<close>, \<open>\<psi>\<close>, \<open>dT/dt\<close> of the current and of the
  other slot, \<open>d\<omega>/dt\<close> of the current and of the other slot; \<^verbatim>\<open>load\<close> of that file into any
  well-formed simulator with the same grid and the same \<open>current\<close> completes and leaves it with
  the saved \<open>T\<close>, \<open>\<omega>\<close>, \<open>\<psi>\<close> and both slots of both tendency buffers.
\<close>

theorem checkpoint_roundtrip:
  assumes w: "wf_sim b s" and w2: "wf_sim b s2"
    and g: "nN s2 = nN s" "nZ s2 = nZ s" "current s2 = current s"
    and cw: "can_write fs (vars_name b s)"
  shows "\<exists>fs' s2'.
      save b (s, fs) = Inr (s\<lparr>saveNumber := saveNumber s + 1\<rparr>, fs')
    \<and> files fs' (vars_name b s) =
        Some (tmp s @ omg s @ psi s
              @ block (dTmpdt s) (current s * nZ s * nN s) (nN s * nZ s)
              @ block (dTmpdt s) (((current s + 1) mod 2) * nZ s * nN s) (nN s * nZ s)
              @ block (dOmgdt s) (current s * nZ s * nN s) (nN s * nZ s)
              @ block (dOmgdt s) (((current s + 1) mod 2) * nZ s * nN s) (nN s * nZ s))
    \<and> length (tmp s @ omg s @ psi s
              @ block (dTmpdt s) (current s * nZ s * nN s) (nN s * nZ s)
              @ block (dTmpdt s) (((current s + 1) mod 2) * nZ s * nN s) (nN s * nZ s)
              @ block (dOmgdt s) (current s * nZ s * nN s) (nN s * nZ s)
              @ block (dOmgdt s) (((current s + 1) mod 2) * nZ s * nN s) (nN s * nZ s))
        = 7 * nN s * nZ s
    \<and> load (vars_name b s) (s2, fs') = Inr (s2', fs')
    \<and> tmp s2' = tmp s \<and> omg s2' = omg s \<and> psi s2' = psi s
    \<and> dTmpdt s2' = dTmpdt s \<and> dOmgdt s2' = dOmgdt s"
proof -
  define M where "M = nN s * nZ s"
  define c1 where "c1 = current s * nZ s * nN s"
  define c2 where "c2 = ((current s + 1) mod 2) * nZ s * nN s"
  have c: "current s < 2"
    and ls: "length (tmp s) = M" "length (omg s) = M" "length (psi s) = M"
      "length (dTmpdt s) = 2 * M" "length (dOmgdt s) = 2 * M"
    using w by (simp_all add: wf_sim_def M_def)
  have ls2: "length (tmp s2) = nN s2 * nZ s2" "length (omg s2) = nN s2 * nZ s2"
      "length (psi s2) = nN s2 * nZ s2"
      "length (dTmpdt s2) = 2 * (nN s2 * nZ s2)" "length (dOmgdt s2) = 2 * (nN s2 * nZ s2)"
    and cs2: "current s2 < 2"
    using w2 by (simp_all add: wf_sim_def)
  have cM: "c1 = current s * M" "c2 = ((current s + 1) mod 2) * M"
    by (simp_all add: c1_def c2_def M_def ac_simps)
  have cc: "c1 = 0 \<and> c2 = M \<or> c1 = M \<and> c2 = 0"
  proof -
    from c consider "current s = 0" | "current s = 1" by arith
    then show ?thesis by cases (simp_all add: cM)
  qed
  define B1 where "B1 = block (dTmpdt s) c1 M"
  define B2 where "B2 = block (dTmpdt s) c2 M"
  define C1 where "C1 = block (dOmgdt s) c1 M"
  define C2 where "C2 = block (dOmgdt s) c2 M"
  have lB: "length B1 = M" "length B2 = M" "length C1 = M" "length C2 = M"
    unfolding B1_def B2_def C1_def C2_def using cc ls by (auto simp: block_def)
  define data where "data = tmp s @ omg s @ psi s @ B1 @ B2 @ C1 @ C2"
  define fs' where "fs' = write_file fs (vars_name b s) data"
  have sv: "save b (s, fs) = Inr (s\<lparr>saveNumber := saveNumber s + 1\<rparr>, fs')"
    using save_ok[of fs s b] cw ls
    unfolding fs'_def data_def B1_def B2_def C1_def C2_def c1_def c2_def M_def vars_name_def
    by simp
  have fl: "files fs' (vars_name b s) = Some (tmp s @ omg s @ psi s @ B1 @ B2 @ C1 @ C2)"
    by (simp add: fs'_def write_file_def data_def)
  have len: "length (tmp s @ omg s @ psi s @ B1 @ B2 @ C1 @ C2) = 7 * nN s * nZ s"
    using ls lB by (simp add: M_def)
  define D where "D = take c2 (take c1 (dTmpdt s2) @ B1 @ drop (c1 + M) (dTmpdt s2)) @ B2
      @ drop (c2 + M) (take c1 (dTmpdt s2) @ B1 @ drop (c1 + M) (dTmpdt s2))"
  define E where "E = take c2 (take c1 (dOmgdt s2) @ C1 @ drop (c1 + M) (dOmgdt s2)) @ C2
      @ drop (c2 + M) (take c1 (dOmgdt s2) @ C1 @ drop (c1 + M) (dOmgdt s2))"
  define s2' where "s2' = s2\<lparr>tmp := tmp s, omg := omg s, psi := psi s, dTmpdt := D, dOmgdt := E\<rparr>"
  have ld: "load (vars_name b s) (s2, fs') = Inr (s2', fs')"
    unfolding s2'_def D_def E_def c1_def c2_def M_def
    using load_exact[of fs' "vars_name b s" "tmp s" "omg s" "psi s" B1 B2 C1 C2 s2, OF fl]
      ls lB ls2 cs2
    by (simp add: g M_def)
  have D: "D = dTmpdt s"
    unfolding D_def B1_def B2_def cM
    by (rule slots_restore[OF ls(4) _ c]) (simp add: ls2 g M_def)
  have E: "E = dOmgdt s"
    unfolding E_def C1_def C2_def cM
    by (rule slots_restore[OF ls(5) _ c]) (simp add: ls2 g M_def)
  have v: "tmp s2' = tmp s \<and> omg s2' = omg s \<and> psi s2' = psi s
      \<and> dTmpdt s2' = dTmpdt s \<and> dOmgdt s2' = dOmgdt s"
    by (simp add: s2'_def D E)
  from sv fl len ld v show ?thesis
    unfolding B1_def B2_def C1_def C2_def c1_def c2_def M_def by blast
qed

lemma ex_fresh_wf: "wf_sim ex_build ex_fresh"
  by (simp add: wf_sim_def ex_build_def ex_fresh_def init_def)

lemma ex_vars_name: "vars_name ex_build ex_sim = ''out/vars.dat''"
  by (simp add: vars_name_def ex_build_def ex_sim_def init_def)

text \<open>
  Saving the first example and loading the file into the fresh simulator.
\<close>

theorem checkpoint_roundtrip_witness:
  "wf_sim ex_build ex_sim \<and> wf_sim ex_build ex_fresh
   \<and> can_write ex_fs (vars_name ex_build ex_sim)
   \<and> (\<exists>fs' s2'.
         save ex_build (ex_sim, ex_fs) = Inr (ex_sim\<lparr>saveNumber := 1\<rparr>, fs')
       \<and> files fs' ''out/vars.dat'' =
           Some ([1, 1 / 2, 0, 0, 1, 0] @ replicate 6 0 @ [0, 0, 0, 0, 2, 0] @ replicate 24 0)
       \<and> load ''out/vars.dat'' (ex_fresh, fs') = Inr (s2', fs')
       \<and> tmp s2' = [1, 1 / 2, 0, 0, 1, 0] \<and> omg s2' = replicate 6 0
       \<and> psi s2' = [0, 0, 0, 0, 2, 0]
       \<and> dTmpdt s2' = replicate 12 0 \<and> dOmgdt s2' = replicate 12 0)"
proof -
  have cw: "can_write ex_fs (vars_name ex_build ex_sim)" by (simp add: ex_fs_def)
  have g: "nN ex_fresh = nN ex_sim" "nZ ex_fresh = nZ ex_sim" "current ex_fresh = current ex_sim"
    by (simp_all add: ex_fresh_def ex_sim_def init_def)
  have sn: "saveNumber ex_sim = 0" by (simp add: ex_sim_def init_def)
  have bl: "block (replicate 12 (0::real)) 0 6 = replicate 6 0"
    "block (replicate 12 (0::real)) 6 6 = replicate 6 0"
    by (simp_all add: block_def)
  have rp: "replicate 6 (0::real) @ replicate 6 0 @ replicate 6 0 @ replicate 6 0 = replicate 24 0"
    by (simp add: replicate_add[symmetric])
  from checkpoint_roundtrip[OF ex_sim_wf ex_fresh_wf g cw]
  obtain fs' s2' where h:
    "save ex_build (ex_sim, ex_fs) = Inr (ex_sim\<lparr>saveNumber := saveNumber ex_sim + 1\<rparr>, fs')"
    "files fs' (vars_name ex_build ex_sim) =
        Some (tmp ex_sim @ omg ex_sim @ psi ex_sim
              @ block (dTmpdt ex_sim) (current ex_sim * nZ ex_sim * nN ex_sim) (nN ex_sim * nZ ex_sim)
              @ block (dTmpdt ex_sim) (((current ex_sim + 1) mod 2) * nZ ex_sim * nN ex_sim)
                  (nN ex_sim * nZ ex_sim)
              @ block (dOmgdt ex_sim) (current ex_sim * nZ ex_sim * nN ex_sim) (nN ex_sim * nZ ex_sim)
              @ block (dOmgdt ex_sim) (((current ex_sim + 1) mod 2) * nZ ex_sim * nN ex_sim)
                  (nN ex_sim * nZ ex_sim))"
    "load (vars_name ex_build ex_sim) (ex_fresh, fs') = Inr (s2', fs')"
    "tmp s2' = tmp ex_sim" "omg s2' = omg ex_sim" "psi s2' = psi ex_sim"
    "dTmpdt s2' = dTmpdt ex_sim" "dOmgdt s2' = dOmgdt ex_sim"
    by blast
  have 1: "save ex_build (ex_sim, ex_fs) = Inr (ex_sim\<lparr>saveNumber := 1\<rparr>, fs')"
    using h(1) by (simp add: sn)
  have 2: "files fs' ''out/vars.dat'' =
           Some ([1, 1 / 2, 0, 0, 1, 0] @ replicate 6 0 @ [0, 0, 0, 0, 2, 0] @ replicate 24 0)"
    using h(2) unfolding ex_vars_name ex_sim_fields by (simp add: bl rp)
  have 3: "load ''out/vars.dat'' (ex_fresh, fs') = Inr (s2', fs')"
    using h(3) by (simp add: ex_vars_name)
  from ex_sim_wf ex_fresh_wf cw 1 2 3 h(4-8) show ?thesis
    by (auto simp: ex_sim_fields)
qed

text \<open>
  Claim C7, evaluated where no file can be opened for writing and no file exists:
  \<^verbatim>\<open>save\<close> and \<^verbatim>\<open>load\<close> end the run with the diagnostic, but \<^verbatim>\<open>saveKineticEnergy\<close>, which
  does not test its streams, returns with the energies recorded in the object and nothing
  written.
\<close>

theorem kinetic_energy_open_unchecked:
  "save ex_build (ex_sim, ex_ro) = Inl (CouldNotOpen ''out/'')
   \<and> load ''ic.dat'' (ex_sim, ex_ro) = Inl (CouldNotOpen ''ic.dat'')
   \<and> saveKineticEnergy ex_build (ex_sim, ex_ro) =
       (ex_sim\<lparr>kePrev := keCurrent ex_sim, keCurrent := calcKineticEnergy ex_sim\<rparr>, ex_ro)"
proof -
  have ro: "\<And>name. \<not> can_write ex_ro name" by (simp add: ex_ro_def)
  have sf: "saveFolder ex_sim = ''out/''" by (simp add: ex_sim_def init_def)
  have 1: "save ex_build (ex_sim, ex_ro) = Inl (CouldNotOpen ''out/'')"
    using save_fails[of ex_ro ex_sim ex_build] ro by (simp add: sf)
  have 2: "load ''ic.dat'' (ex_sim, ex_ro) = Inl (CouldNotOpen ''ic.dat'')"
    by (rule load_fails) (simp add: ex_ro_def)
  from 1 2 saveKineticEnergy_ro[of ex_ro ex_build ex_sim, OF ro] show ?thesis by simp
qed

subsection \<open>The Poisson solve and the integrator steps\<close>

lemma length_thomas_eliminate [simp]: "length (thomas_eliminate w y sp rows) = length rows"
  by (induction rows arbitrary: w y sp) (auto simp: Let_def)

lemma length_thomas_backsub [simp]: "length (thomas_backsub ts) = length ts"
  by (induction ts rule: thomas_backsub.induct) (auto simp: Let_def)

lemma length_thomas_rows [simp]: "length (thomas_rows s n rhs) = nZ s"
  by (simp add: thomas_rows_def)

lemma length_thomas_solve [simp]: "length (thomas_solve s n rhs) = nZ s"
proof (cases "thomas_rows s n rhs")
  case Nil
  then have "nZ s = 0" using length_thomas_rows[of s n rhs] by simp
  with Nil show ?thesis by (simp add: thomas_solve_def)
next
  case (Cons r rows)
  obtain sb d su q where r: "r = (sb, d, su, q)" by (cases r)
  have "length (r # rows) = nZ s" using length_thomas_rows[of s n rhs] Cons by simp
  then show ?thesis by (simp add: thomas_solve_def Cons r)
qed

lemma thomas_backsub_first: "thomas_backsub ((1, 0, 0) # ts) ! 0 = 0"
  by (cases ts) (auto simp: Let_def)

lemma thomas_backsub_last:
  "ts \<noteq> [] \<Longrightarrow> last (thomas_backsub ts) = (case last ts of (w, y, sp) \<Rightarrow> y / w)"
proof (induction ts rule: thomas_backsub.induct)
  case 1
  then show ?case by simp
next
  case (2 w y sp)
  show ?case by simp
next
  case (3 w y sp r rs)
  have "thomas_backsub (r # rs) \<noteq> []"
    using length_thomas_backsub[of "r # rs"] by (metis length_0_conv list.distinct(1))
  with 3 show ?case by (simp add: Let_def)
qed

lemma thomas_eliminate_last:
  "rows \<noteq> [] \<Longrightarrow> last rows = (0, 1, 0, 0) \<Longrightarrow> last (thomas_eliminate w y sp rows) = (1, 0, 0)"
proof (induction rows arbitrary: w y sp)
  case Nil
  then show ?case by simp
next
  case (Cons r rows)
  obtain sb d su q where r: "r = (sb, d, su, q)" by (cases r)
  show ?case
  proof (cases "rows = []")
    case True
    with Cons.prems r show ?thesis by (simp add: Let_def)
  next
    case False
    with Cons.prems have l: "last rows = (0, 1, 0, 0)" by simp
    have ne: "thomas_eliminate w' y' su rows \<noteq> []" for w' y'
      using False length_thomas_eliminate[of w' y' su rows] by (metis length_0_conv)
    show ?thesis
      using Cons.IH[OF False l] ne by (simp add: r Let_def)
  qed
qed

lemma thomas_rows_Cons:
  assumes "2 \<le> nZ s"
  shows "\<exists>rows. thomas_rows s n rhs = (0, 1, 0, 0) # rows \<and> rows \<noteq> [] \<and> last rows = (0, 1, 0, 0)"
proof -
  let ?f = "\<lambda>k. if k = 0 \<or> k = nZ s - 1 then (0, 1, 0, 0)
              else (oodz2 s, - (2 * oodz2 s + (real n * M_PI / real (a s))\<^sup>2), oodz2 s, rhs ! k)"
  have u: "[0 ..< nZ s] = 0 # [1 ..< nZ s]" using assms by (simp add: upt_conv_Cons)
  have ne: "[1 ..< nZ s] \<noteq> []" using assms by simp
  have l: "last [1 ..< nZ s] = nZ s - 1" using assms by (simp add: last_upt)
  have "thomas_rows s n rhs = ?f 0 # map ?f [1 ..< nZ s]"
    unfolding thomas_rows_def by (subst u) simp
  moreover have "last (map ?f [1 ..< nZ s]) = (0, 1, 0, 0)"
    using ne l by (simp add: last_map)
  ultimately show ?thesis using ne by simp
qed

lemma thomas_solve_boundary:
  assumes "2 \<le> nZ s"
  shows "thomas_solve s n rhs ! 0 = 0" and "thomas_solve s n rhs ! (nZ s - 1) = 0"
proof -
  from thomas_rows_Cons[OF assms, of n rhs] obtain rows
    where r: "thomas_rows s n rhs = (0, 1, 0, 0) # rows" and ne: "rows \<noteq> []"
      and l: "last rows = (0, 1, 0, 0)"
    by blast
  let ?ts = "(1, 0, 0) # thomas_eliminate 1 0 0 rows"
  have ts: "thomas_solve s n rhs = thomas_backsub ?ts"
    by (simp add: thomas_solve_def r)
  show "thomas_solve s n rhs ! 0 = 0"
    unfolding ts by (rule thomas_backsub_first)
  have ne': "thomas_eliminate 1 0 0 rows \<noteq> []"
    using ne length_thomas_eliminate[of 1 0 0 rows] by (metis length_0_conv)
  have "last ?ts = (1, 0, 0)"
    using thomas_eliminate_last[OF ne l, of 1 0 0] ne' by simp
  then have z: "last (thomas_backsub ?ts) = 0"
    using thomas_backsub_last[of ?ts] by simp
  have "Suc (length rows) = nZ s" using length_thomas_rows[of s n rhs] r by simp
  then have len: "length rows = nZ s - 1" by arith
  have "thomas_backsub ?ts \<noteq> []"
    using length_thomas_backsub[of ?ts] by (metis length_0_conv list.distinct(1))
  then have "last (thomas_backsub ?ts) = thomas_backsub ?ts ! (length (thomas_backsub ?ts) - 1)"
    by (rule last_conv_nth)
  also have "length (thomas_backsub ?ts) - 1 = nZ s - 1" by (simp add: len)
  finally show "thomas_solve s n rhs ! (nZ s - 1) = 0"
    unfolding ts using z by simp
qed

lemma envP_nZ: "envP s = envP s' \<Longrightarrow> nZ s = nZ s'"
  by (drule arg_cong[of _ _ nZ]) (simp add: envP_def)

lemma envP_nN: "envP s = envP s' \<Longrightarrow> nN s = nN s'"
  by (drule arg_cong[of _ _ nN]) (simp add: envP_def)

lemma envP_a: "envP s = envP s' \<Longrightarrow> a s = a s'"
  by (drule arg_cong[of _ _ a]) (simp add: envP_def)

lemma envP_current: "envP s = envP s' \<Longrightarrow> current s = current s'"
  by (drule arg_cong[of _ _ current]) (simp add: envP_def)

lemma envP_dt: "envP s = envP s' \<Longrightarrow> dt s = dt s'"
  by (drule arg_cong[of _ _ dt]) (simp add: envP_def)

lemma envP_t: "envP s = envP s' \<Longrightarrow> t s = t s'"
  by (drule arg_cong[of _ _ t]) (simp add: envP_def)

lemma envP_totalTime: "envP s = envP s' \<Longrightarrow> totalTime s = totalTime s'"
  by (drule arg_cong[of _ _ totalTime]) (simp add: envP_def)

lemma envP_omg: "envP s = envP s' \<Longrightarrow> omg s = omg s'"
  by (drule arg_cong[of _ _ omg]) (simp add: envP_def)

lemma envP_tmp: "envP s = envP s' \<Longrightarrow> tmp s = tmp s'"
  by (drule arg_cong[of _ _ tmp]) (simp add: envP_def)

lemma envP_xi: "envP s = envP s' \<Longrightarrow> xi s = xi s'"
  by (drule arg_cong[of _ _ xi]) (simp add: envP_def)

lemma envP_dTmpdt: "envP s = envP s' \<Longrightarrow> dTmpdt s = dTmpdt s'"
  by (drule arg_cong[of _ _ dTmpdt]) (simp add: envP_def)

lemma envP_dOmgdt: "envP s = envP s' \<Longrightarrow> dOmgdt s = dOmgdt s'"
  by (drule arg_cong[of _ _ dOmgdt]) (simp add: envP_def)

lemma envP_dXidt: "envP s = envP s' \<Longrightarrow> dXidt s = dXidt s'"
  by (drule arg_cong[of _ _ dXidt]) (simp add: envP_def)

lemma envP_oodz2: "envP s = envP s' \<Longrightarrow> oodz2 s = oodz2 s'"
  by (drule arg_cong[of _ _ oodz2]) (simp add: envP_def)

lemmas envP_fields = envP_nZ envP_nN envP_a envP_current envP_dt envP_t envP_totalTime envP_omg envP_tmp envP_xi envP_dTmpdt envP_dOmgdt envP_dXidt envP_oodz2

lemma envX_nZ: "envX s = envX s' \<Longrightarrow> nZ s = nZ s'"
  by (drule arg_cong[of _ _ nZ]) (simp add: envX_def)

lemma envX_nN: "envX s = envX s' \<Longrightarrow> nN s = nN s'"
  by (drule arg_cong[of _ _ nN]) (simp add: envX_def)

lemma envX_a: "envX s = envX s' \<Longrightarrow> a s = a s'"
  by (drule arg_cong[of _ _ a]) (simp add: envX_def)

lemma envX_current: "envX s = envX s' \<Longrightarrow> current s = current s'"
  by (drule arg_cong[of _ _ current]) (simp add: envX_def)

lemma envX_dt: "envX s = envX s' \<Longrightarrow> dt s = dt s'"
  by (drule arg_cong[of _ _ dt]) (simp add: envX_def)

lemma envX_t: "envX s = envX s' \<Longrightarrow> t s = t s'"
  by (drule arg_cong[of _ _ t]) (simp add: envX_def)

lemma envX_totalTime: "envX s = envX s' \<Longrightarrow> totalTime s = totalTime s'"
  by (drule arg_cong[of _ _ totalTime]) (simp add: envX_def)

lemma envX_omg: "envX s = envX s' \<Longrightarrow> omg s = omg s'"
  by (drule arg_cong[of _ _ omg]) (simp add: envX_def)

lemma envX_tmp: "envX s = envX s' \<Longrightarrow> tmp s = tmp s'"
  by (drule arg_cong[of _ _ tmp]) (simp add: envX_def)

lemma envX_psi: "envX s = envX s' \<Longrightarrow> psi s = psi s'"
  by (drule arg_cong[of _ _ psi]) (simp add: envX_def)

lemma envX_dTmpdt: "envX s = envX s' \<Longrightarrow> dTmpdt s = dTmpdt s'"
  by (drule arg_cong[of _ _ dTmpdt]) (simp add: envX_def)

lemma envX_dOmgdt: "envX s = envX s' \<Longrightarrow> dOmgdt s = dOmgdt s'"
  by (drule arg_cong[of _ _ dOmgdt]) (simp add: envX_def)

lemma envX_dXidt: "envX s = envX s' \<Longrightarrow> dXidt s = dXidt s'"
  by (drule arg_cong[of _ _ dXidt]) (simp add: envX_def)

lemma envX_oodz2: "envX s = envX s' \<Longrightarrow> oodz2 s = oodz2 s'"
  by (drule arg_cong[of _ _ oodz2]) (simp add: envX_def)

lemmas envX_fields = envX_nZ envX_nN envX_a envX_current envX_dt envX_t envX_totalTime envX_omg envX_tmp envX_psi envX_dTmpdt envX_dOmgdt envX_dXidt envX_oodz2

lemma env_totalTime: "env s = env s' \<Longrightarrow> totalTime s = totalTime s'"
  by (drule arg_cong[of _ _ totalTime]) (simp add: env_def)

lemma env_oodz2: "env s = env s' \<Longrightarrow> oodz2 s = oodz2 s'"
  by (drule arg_cong[of _ _ oodz2]) (simp add: env_def)

lemma envF_a: "envF s = envF s' \<Longrightarrow> a s = a s'"
  by (drule arg_cong[of _ _ a]) (simp add: envF_def)

lemma envF_oodz2: "envF s = envF s' \<Longrightarrow> oodz2 s = oodz2 s'"
  by (drule arg_cong[of _ _ oodz2]) (simp add: envF_def)

lemma wf_shape: "shape s' = shape s \<Longrightarrow> wf_sim b s' = wf_sim b s"
  by (simp add: shape_def wf_sim_def)

lemma envP_solve_assign: "envP (solve_assign n s) = envP s"
  by (simp add: solve_assign_def envP_def Let_def)

lemma envP_fold:
  assumes "\<And>x s. envP (g x s) = envP s"
  shows "envP (fold g xs s) = envP s"
  by (induction xs arbitrary: s) (simp_all add: assms)

lemma envP_solve_pure: "envP (solve_pure s) = envP s"
  unfolding solve_pure_def by (rule envP_fold) (rule envP_solve_assign)

lemma thomas_solve_envP: "envP u = envP s \<Longrightarrow> thomas_solve u n rhs = thomas_solve s n rhs"
  unfolding thomas_solve_def thomas_rows_def by (simp only: envP_fields[of u s])

lemma sol_envP: "envP u = envP s \<Longrightarrow> sol u n = sol s n"
  unfolding sol_def by (simp only: envP_fields[of u s] thomas_solve_envP[of u s])

lemma psi_solve_assign:
  "psi (solve_assign n s) = fold (\<lambda>k ys. ys[nZ s * n + k := sol s n ! k]) [0 ..< nZ s] (psi s)"
  by (simp add: solve_assign_def sol_def Let_def)

lemma psi_solve_fold:
  "psi (fold solve_assign ns s) =
     fold (\<lambda>(n, k) ys. ys[nZ s * n + k := sol s n ! k]) (List.product ns [0 ..< nZ s]) (psi s)"
proof (induction ns rule: rev_induct)
  case Nil
  then show ?case by simp
next
  case (snoc n ns)
  let ?u = "fold solve_assign ns s"
  have e: "envP ?u = envP s" by (rule envP_fold) (rule envP_solve_assign)
  have Z: "nZ ?u = nZ s" using e by (rule envP_nZ)
  have p: "List.product (ns @ [n]) [0 ..< nZ s] =
             List.product ns [0 ..< nZ s] @ map (Pair n) [0 ..< nZ s]"
    by (induction ns) simp_all
  show ?case
    by (simp add: psi_solve_assign Z sol_envP[OF e] snoc.IH p fold_map comp_def)
qed

lemma psi_solve_cell:
  assumes "n < nN s" "k < nZ s" "length (psi s) = nN s * nZ s"
  shows "psi (solve_pure s) ! (nZ s * n + k) = sol s n ! k"
proof -
  let ?xs = "List.product [0 ..< nN s] [0 ..< nZ s]"
  let ?idx = "\<lambda>(n, k). nZ s * n + k"
  let ?val = "\<lambda>(n, k). sol s n ! k"
  have f: "(\<lambda>(n, k) ys. ys[nZ s * n + k := sol s n ! k]) = (\<lambda>x ys. ys[?idx x := ?val x])"
    by (simp add: fun_eq_iff split: prod.split)
  have "fold (\<lambda>x ys. ys[?idx x := ?val x]) ?xs (psi s) ! ?idx (n, k) = ?val (n, k)"
  proof (rule fold_upd_hit)
    show "(n, k) \<in> set ?xs" using assms by simp
    show "?idx (n, k) < length (psi s)"
      using cell_bound[OF assms(1,2)] assms(3) by (simp add: mult.commute)
    fix x' assume x: "x' \<in> set ?xs" and e: "?idx x' = ?idx (n, k)"
    obtain n' k' where xx: "x' = (n', k')" by (cases x')
    from x have "k' < nZ s" by (simp add: xx)
    from idx_inj[OF this assms(2), of 0 n' n] e have "n' = n \<and> k' = k"
      by (simp add: xx mult.commute)
    then show "?val x' = ?val (n, k)" by (simp add: xx)
  qed
  then show ?thesis by (simp add: solve_pure_def psi_solve_fold f)
qed

lemma length_psi_solve_pure: "length (psi (solve_pure s)) = length (psi s)"
proof -
  have f: "(\<lambda>(n, k) ys. ys[nZ s * n + k := sol s n ! k]) =
      (\<lambda>x ys. ys[(\<lambda>(n, k). nZ s * n + k) x := (\<lambda>(n, k). sol s n ! k) x])"
    by (simp add: fun_eq_iff split: prod.split)
  show ?thesis unfolding solve_pure_def psi_solve_fold f by (rule fold_upd_length)
qed

lemma psi_solve_boundary:
  assumes w: "wf_sim b s" and n: "n < nN s"
  shows "psi (solve_pure s) ! (n * nZ s) = 0" "psi (solve_pure s) ! (n * nZ s + (nZ s - 1)) = 0"
proof -
  have Z: "2 \<le> nZ s" "0 < nZ s" "nZ s - 1 < nZ s" and l: "length (psi s) = nN s * nZ s"
    using w by (simp_all add: wf_sim_def)
  from psi_solve_cell[OF n Z(2) l] thomas_solve_boundary(1)[OF Z(1)]
  show "psi (solve_pure s) ! (n * nZ s) = 0" by (simp add: sol_def mult.commute)
  from psi_solve_cell[OF n Z(3) l] thomas_solve_boundary(2)[OF Z(1)]
  show "psi (solve_pure s) ! (n * nZ s + (nZ s - 1)) = 0" by (simp add: sol_def mult.commute)
qed

lemma forM_asserts_Inr:
  "forM ks (\<lambda>k s. assert (P k s) s) u = Inr u' \<Longrightarrow> u' = u"
  by (induction ks arbitrary: u) (auto simp: assert_def split: if_splits sum.splits)

lemma forM_asserts_ok:
  "(\<And>k. k \<in> set ks \<Longrightarrow> P k u) \<Longrightarrow> forM ks (\<lambda>k s. assert (P k s) s) u = Inr u"
  by (induction ks) (simp_all add: assert_def)

lemma solve_mode_Inr: "solve_mode n s = Inr s' \<Longrightarrow> s' = solve_assign n s"
  by (auto simp: solve_mode_def bindE_def assert_def split: if_splits)

lemma solveForPsi_Inr:
  assumes "solveForPsi b s = Inr s'"
  shows "s' = solve_pure s"
proof -
  from assms obtain u where u: "forM [0 ..< nN s] solve_mode s = Inr u"
    and r: "forM [0 ..< nZ u] (\<lambda>k s. assert (psi s ! (nZ s * 0 + k) < EPSILON b) s) u = Inr s'"
    by (auto simp: solveForPsi_def bindE_def split: sum.splits)
  have "u = fold solve_assign [0 ..< nN s] s"
    using u by (rule forM_Inr_fold[rotated]) (rule solve_mode_Inr)
  moreover have "s' = u" using r by (rule forM_asserts_Inr)
  ultimately show ?thesis by (simp add: solve_pure_def)
qed

lemma solve_prefix:
  assumes w: "wf_sim b s" and m: "m \<le> nN s"
  shows "forM [0 ..< m] solve_mode s = Inr (fold solve_assign [0 ..< m] s)"
  using m
proof (induction m)
  case 0
  then show ?case by simp
next
  case (Suc m)
  let ?u = "fold solve_assign [0 ..< m] s"
  define u1 where "u1 = fold solve_assign [0 ..< Suc m] s"
  have mN: "m < nN s" using Suc.prems by simp
  have Z: "2 \<le> nZ s" "0 < nZ s" "nZ s - 1 < nZ s" and l: "length (psi s) = nN s * nZ s"
    using w by (simp_all add: wf_sim_def)
  have IH: "forM [0 ..< m] solve_mode s = Inr ?u" using Suc by simp
  have u1: "solve_assign m ?u = u1" by (simp add: u1_def)
  have e1: "envP u1 = envP s" unfolding u1_def by (rule envP_fold) (rule envP_solve_assign)
  have Z1: "nZ u1 = nZ s" using e1 by (rule envP_nZ)
  let ?idx = "\<lambda>(n, k). nZ s * n + k"
  let ?val = "\<lambda>(n, k). sol s n ! k"
  have f: "(\<lambda>(n, k) ys. ys[nZ s * n + k := sol s n ! k]) = (\<lambda>x ys. ys[?idx x := ?val x])"
    by (simp add: fun_eq_iff split: prod.split)
  have cell: "psi u1 ! (nZ s * m + k) = sol s m ! k" if k: "k < nZ s" for k
  proof -
    let ?xs = "List.product [0 ..< Suc m] [0 ..< nZ s]"
    have "fold (\<lambda>x ys. ys[?idx x := ?val x]) ?xs (psi s) ! ?idx (m, k) = ?val (m, k)"
    proof (rule fold_upd_hit)
      show "(m, k) \<in> set ?xs" using k by simp
      show "?idx (m, k) < length (psi s)"
        using cell_bound[OF mN k] l by (simp add: mult.commute)
      fix x' assume x: "x' \<in> set ?xs" and e: "?idx x' = ?idx (m, k)"
      obtain n' k' where xx: "x' = (n', k')" by (cases x')
      from x have "k' < nZ s" by (simp add: xx)
      from idx_inj[OF this k, of 0 n' m] e have "n' = m \<and> k' = k"
        by (simp add: xx mult.commute)
      then show "?val x' = ?val (m, k)" by (simp add: xx)
    qed
    then show ?thesis unfolding u1_def psi_solve_fold f by simp
  qed
  have z0: "psi u1 ! (nZ s * m + 0) = 0"
    using cell[OF Z(2)] thomas_solve_boundary(1)[OF Z(1)] by (simp add: sol_def)
  have z1: "psi u1 ! (nZ s * m + (nZ s - 1)) = 0"
    using cell[OF Z(3)] thomas_solve_boundary(2)[OF Z(1)] by (simp add: sol_def)
  have Z2: "nZ s * m + nZ s - Suc 0 = nZ s * m + (nZ s - Suc 0)" using Z(2) by simp
  have "solve_mode m ?u = Inr u1"
    unfolding solve_mode_def bindE_def u1 sum.case assert_def
    using z0 z1 by (simp add: Z1 Z2)
  then show ?case
    unfolding u1_def by (simp add: forM_append IH bindE_def)
qed

lemma solveForPsi_complete:
  assumes w: "wf_sim b s" and ok: "solve_asserts b s"
  shows "solveForPsi b s = Inr (solve_pure s)"
proof -
  have N: "0 < nN s" and l: "length (psi s) = nN s * nZ s"
    using w by (simp_all add: wf_sim_def)
  have 1: "forM [0 ..< nN s] solve_mode s = Inr (solve_pure s)"
    unfolding solve_pure_def by (rule solve_prefix[OF w]) simp
  have Z: "nZ (solve_pure s) = nZ s" by (rule envP_nZ, rule envP_solve_pure)
  have 2: "forM [0 ..< nZ s] (\<lambda>k u. assert (psi u ! (nZ u * 0 + k) < EPSILON b) u) (solve_pure s)
             = Inr (solve_pure s)"
  proof (rule forM_asserts_ok)
    fix k assume "k \<in> set [0 ..< nZ s]"
    then have k: "k < nZ s" by simp
    from psi_solve_cell[OF N k l] ok k
    show "psi (solve_pure s) ! (nZ (solve_pure s) * 0 + k) < EPSILON b"
      by (simp add: solve_asserts_def)
  qed
  show ?thesis
    unfolding solveForPsi_def 1 bindE_def sum.case Z by (rule 2)
qed

lemma envX_updateXi_assign: "envX (updateXi_assign f n k s) = envX s"
  by (simp add: updateXi_assign_def envX_def Let_def)

lemma length_xi_updateXi_assign: "length (xi (updateXi_assign f n k s)) = length (xi s)"
  by (simp add: updateXi_assign_def Let_def)

lemma envX_fold:
  assumes "\<And>x s. envX (g x s) = envX s"
  shows "envX (fold g xs s) = envX s"
  by (induction xs arbitrary: s) (simp_all add: assms)

lemma envX_updateXi: "envX (updateXi f s) = envX s"
  unfolding updateXi_def
  by (rule envX_fold, rule envX_fold, rule envX_updateXi_assign)

lemma length_fold_inv:
  assumes "\<And>x s. length (p (g x s)) = length (p s)"
  shows "length (p (fold g xs s)) = length (p s)"
  by (induction xs arbitrary: s) (simp_all add: assms)

lemma length_xi_updateXi: "length (xi (updateXi f s)) = length (xi s)"
  unfolding updateXi_def
  by (rule length_fold_inv, rule length_fold_inv, rule length_xi_updateXi_assign)

lemma shape_envX:
  assumes "envX s' = envX s" and "length (xi s') = length (xi s)"
  shows "shape s' = shape s"
  unfolding shape_def using assms(2) by (simp add: envX_fields[OF assms(1)])

lemma shape_envP:
  assumes "envP s' = envP s" and "length (psi s') = length (psi s)"
  shows "shape s' = shape s"
  unfolding shape_def using assms(2) by (simp add: envP_fields[OF assms(1)])

lemma shape_envF:
  assumes "envF s' = envF s" and "length (tmp s') = length (tmp s)"
    and "length (omg s') = length (omg s)"
  shows "shape s' = shape s"
  unfolding shape_def using assms(2,3) by (simp add: envF_fields[OF assms(1)] envF_a[OF assms(1)])

lemma shape_env:
  assumes "env s' = env s" and "length (dTmpdt s') = length (dTmpdt s)"
    and "length (dOmgdt s') = length (dOmgdt s)" and "length (dXidt s') = length (dXidt s)"
  shows "shape s' = shape s"
  unfolding shape_def using assms(2,3,4) by (simp add: env_fields[OF assms(1)])

lemma shape_linear:
  assumes "computeLinearDerivatives b l s = Inr s'"
  shows "shape s' = shape s"
  by (rule shape_env[OF env_linear_pass[OF assms] linear_lengths[OF assms]])

lemma nonlinear_pure_frame:
  "env (nonlinear_pure s) = env s" "dXidt (nonlinear_pure s) = dXidt s"
  "length (dTmpdt (nonlinear_pure s)) = length (dTmpdt s)"
  "length (dOmgdt (nonlinear_pure s)) = length (dOmgdt s)"
  using accum_nonlinear_pure[of s, unfolded accum_at_def] by simp_all

lemma shape_nonlinear: "shape (nonlinear_pure s) = shape s"
  by (rule shape_env) (simp_all add: nonlinear_pure_frame)

lemma shape_update: "shape (update_pure f s) = shape s"
  by (rule shape_envF[OF envF_update_pure])
     (simp_all add: update_pure_def tmp_update_fold omg_update_fold)

lemma shape_updateXi: "shape (updateXi f s) = shape s"
  by (rule shape_envX[OF envX_updateXi length_xi_updateXi])

lemma shape_solve: "shape (solve_pure s) = shape s"
  by (rule shape_envP[OF envP_solve_pure length_psi_solve_pure])

lemma wf_advance: "wf_sim b s \<Longrightarrow> wf_sim b (advance s)"
  by (simp add: wf_sim_def advance_def)

lemma boundary_zero_same:
  assumes "nZ s' = nZ s" "nN s' = nN s" "dTmpdt s' = dTmpdt s" "dOmgdt s' = dOmgdt s"
    and "boundary_zero s"
  shows "boundary_zero s'"
  using assms(5) unfolding boundary_zero_def by (simp only: assms(1-4))

lemma step_tail_props:
  assumes w: "wf_sim b s1" and st: "step_tail b f x s1 s'"
  shows "wf_sim b s'" "nZ s' = nZ s1" "nN s' = nN s1"
    "t s' = t s1 + dt s1" "dt s' = dt s1" "totalTime s' = totalTime s1"
    "current s' = (current s1 + 1) mod 2"
    "\<And>n. n < nN s1 \<Longrightarrow> psi s' ! (n * nZ s1) = 0 \<and> psi s' ! (n * nZ s1 + (nZ s1 - 1)) = 0"
    "boundary_zero s1 \<Longrightarrow> boundary_zero s'"
    "\<And>n. boundary_zero s1 \<Longrightarrow> n < nN s1 \<Longrightarrow>
       omg s' ! (n * nZ s1) = omg s1 ! (n * nZ s1) \<and>
       omg s' ! (n * nZ s1 + (nZ s1 - 1)) = omg s1 ! (n * nZ s1 + (nZ s1 - 1))"
    "dTmpdt s' = dTmpdt s1" "dOmgdt s' = dOmgdt s1"
proof -
  from st obtain s2 s4 where u: "updateTmpAndOmg b f s1 = Inr s2"
    and p: "solveForPsi b (if x then updateXi 1 s2 else s2) = Inr s4" and a: "s' = advance s4"
    unfolding step_tail_def by blast
  define s3 where "s3 = (if x then updateXi 1 s2 else s2)"
  have s2: "s2 = update_pure f s1" by (rule updateTmpAndOmg_Inr[OF u])
  have s4: "s4 = solve_pure s3" using p unfolding s3_def[symmetric] by (rule solveForPsi_Inr)
  have e2: "envF s2 = envF s1" unfolding s2 by (rule envF_update_pure)
  have e3: "envX s3 = envX s2" unfolding s3_def by (simp add: envX_updateXi)
  have e4: "envP s4 = envP s3" unfolding s4 by (rule envP_solve_pure)
  have sh2: "shape s2 = shape s1" unfolding s2 by (rule shape_update)
  have sh3: "shape s3 = shape s2" unfolding s3_def by (simp add: shape_updateXi)
  have sh4: "shape s4 = shape s3" unfolding s4 by (rule shape_solve)
  have w2: "wf_sim b s2" using w wf_shape[OF sh2] by simp
  have w3: "wf_sim b s3" using w2 wf_shape[OF sh3] by simp
  have w4: "wf_sim b s4" using w3 wf_shape[OF sh4] by simp
  show "wf_sim b s'" unfolding a by (rule wf_advance[OF w4])
  have Z: "nZ s4 = nZ s1"
    using envP_nZ[OF e4] envX_nZ[OF e3] envF_nZ[OF e2] by simp
  have N: "nN s4 = nN s1"
    using envP_nN[OF e4] envX_nN[OF e3] envF_nN[OF e2] by simp
  show "nZ s' = nZ s1" "nN s' = nN s1" unfolding a by (simp_all add: advance_def Z N)
  have tt: "t s4 = t s1" "dt s4 = dt s1" "totalTime s4 = totalTime s1" "current s4 = current s1"
    using envP_t[OF e4] envX_t[OF e3] envF_t[OF e2]
      envP_dt[OF e4] envX_dt[OF e3] envF_dt[OF e2]
      envP_totalTime[OF e4] envX_totalTime[OF e3] envF_totalTime[OF e2]
      envP_current[OF e4] envX_current[OF e3] envF_current[OF e2]
    by simp_all
  show "t s' = t s1 + dt s1" "dt s' = dt s1" "totalTime s' = totalTime s1"
    "current s' = (current s1 + 1) mod 2"
    unfolding a by (simp_all add: advance_def tt)
  have Z3: "nZ s3 = nZ s1" "nN s3 = nN s1"
    using envX_nZ[OF e3] envF_nZ[OF e2] envX_nN[OF e3] envF_nN[OF e2] by simp_all
  show "\<And>n. n < nN s1 \<Longrightarrow> psi s' ! (n * nZ s1) = 0 \<and> psi s' ! (n * nZ s1 + (nZ s1 - 1)) = 0"
    using psi_solve_boundary[OF w3] unfolding a s4 Z3 by (simp add: advance_def)
  have T: "dTmpdt s4 = dTmpdt s1" "dOmgdt s4 = dOmgdt s1"
    using envP_dTmpdt[OF e4] envX_dTmpdt[OF e3] envF_dTmpdt[OF e2]
      envP_dOmgdt[OF e4] envX_dOmgdt[OF e3] envF_dOmgdt[OF e2]
    by simp_all
  show "dTmpdt s' = dTmpdt s1" "dOmgdt s' = dOmgdt s1" unfolding a by (simp_all add: advance_def T)
  show "boundary_zero s1 \<Longrightarrow> boundary_zero s'"
    by (rule boundary_zero_same[of s' s1]) (simp_all add: a advance_def Z N T)
  have O: "omg s4 = omg s2" using envP_omg[OF e4] envX_omg[OF e3] by simp
  show "\<And>n. boundary_zero s1 \<Longrightarrow> n < nN s1 \<Longrightarrow>
       omg s' ! (n * nZ s1) = omg s1 ! (n * nZ s1) \<and>
       omg s' ! (n * nZ s1 + (nZ s1 - 1)) = omg s1 ! (n * nZ s1 + (nZ s1 - 1))"
    using update_boundary(3,4)[OF w, of _ f] unfolding a s2[symmetric]
    by (simp add: advance_def O)
qed

lemma linear_step_Inr:
  assumes "linear_step b s = Inr s'"
  shows "\<exists>s1. computeLinearDerivatives b 1 s = Inr s1 \<and> step_tail b 1 (DDC b) s1 s'"
  using assms unfolding linear_step_def step_tail_def bindE_def
  by (auto split: sum.splits)




lemma thomas_solve_3:
  assumes "nZ s = 3"
  shows "thomas_solve s n rhs =
           [0, rhs ! 1 / - (2 * oodz2 s + (real n * M_PI / real (a s))\<^sup>2), 0]"
proof -
  have u: "[0 ..< 3] = [0, Suc 0, 2]" by (simp add: upt_rec)
  show ?thesis
    by (simp add: thomas_solve_def thomas_rows_def assms u Let_def)
qed

lemma replicate_update_same: "(replicate n x)[i := x] = replicate n x"
  by (cases "i < n") (simp_all add: list_eq_iff_nth_eq nth_list_update)

lemma small_linear_pass:
  assumes g: "nZ s = 3" "nN s = 2" and chk: "dOmgdt (linear_assign b 1 1 1 s) ! 1 < EPSILON b"
  shows "computeLinearDerivatives b 1 s = Inr (linear_assign b 1 1 1 s)"
proof -
  have u: "[Suc 0 ..< 2] = [Suc 0]" by (simp add: upt_rec)
  show ?thesis
    using chk by (simp add: computeLinearDerivatives_def g u linear_body_def Let_def assert_def)
qed

lemma update_asserts_boundary_zero:
  assumes c: "current s < 2" and bz: "boundary_zero s" and bc: "bc_asserts b s"
  shows "update_asserts b f s"
  unfolding update_asserts_def
proof (intro allI impI)
  fix n assume n: "n < nN s"
  note z = boundary_zero_ab[OF c bz n, of f]
  from bc[unfolded bc_asserts_def, rule_format, OF n]
  show "(if 0 < n then tmp s ! (n * nZ s) + abT f s (n, 0) < EPSILON b
         else tmp s ! (n * nZ s) + abT f s (n, 0) - 1 < EPSILON b) \<and>
        tmp s ! (n * nZ s + (nZ s - 1)) + abT f s (n, nZ s - 1) < EPSILON b \<and>
        omg s ! (n * nZ s) + abO f s (n, 0) < EPSILON b \<and>
        omg s ! (n * nZ s + (nZ s - 1)) + abO f s (n, nZ s - 1) < EPSILON b"
    using z by (cases "0 < n") simp_all
qed

lemma bc_asserts_env:
  assumes "env s' = env s" and "bc_asserts b s"
  shows "bc_asserts b s'"
  using assms(2) unfolding bc_asserts_def
  by (simp only: env_nZ[OF assms(1)] env_nN[OF assms(1)] env_tmp[OF assms(1)] env_omg[OF assms(1)])

lemma small_linear_step:
  assumes w: "wf_sim b s" and nd: "\<not> DDC b" and g: "nZ s = 3" "nN s = 2" "current s = 0"
    and z: "dTmpdt s = replicate 12 0" "dOmgdt s = replicate 12 0"
    and eps: "0 < EPSILON b" and o1: "omg s ! 1 = 0" and bc: "bc_asserts b s"
  shows "linear_step b s = Inr (advance (solve_pure (update_pure 1 (linear_assign b 1 1 1 s))))"
proof -
  define s1 where "s1 = linear_assign b 1 1 1 s"
  define s2 where "s2 = update_pure 1 s1"
  have dO: "dOmgdt s1 = (replicate 12 0)[4 := linO b s 1 1]"
    unfolding s1_def by (simp add: dOmgdt_linear_assign di_def g z)
  have chk: "dOmgdt s1 ! 1 < EPSILON b" unfolding dO using eps by simp
  have k: "computeLinearDerivatives b 1 s = Inr s1"
    unfolding s1_def by (rule small_linear_pass[OF g(1,2) chk[unfolded s1_def]])
  have e1: "env s1 = env s" by (rule env_linear_pass[OF k])
  have w1: "wf_sim b s1" using w wf_shape[OF shape_linear[OF k]] by simp
  have bz: "boundary_zero s" by (simp add: boundary_zero_def g z)
  have bz1: "boundary_zero s1" by (rule boundary_zero_linear[OF w bz k])
  have g1: "nZ s1 = 3" "nN s1 = 2" "current s1 = 0" "omg s1 = omg s"
    using env_nZ[OF e1] env_nN[OF e1] env_current[OF e1] env_omg[OF e1] g by simp_all
  have ua: "update_asserts b 1 s1"
    by (rule update_asserts_boundary_zero[OF _ bz1 bc_asserts_env[OF e1 bc]]) (simp add: g1)
  have u: "updateTmpAndOmg b 1 s1 = Inr s2"
    unfolding s2_def by (rule updateTmpAndOmg_complete[OF w1 ua])
  have e2: "envF s2 = envF s1" unfolding s2_def by (rule envF_update_pure)
  have w2: "wf_sim b s2" unfolding s2_def using w1 wf_shape[OF shape_update] by simp
  have g2: "nZ s2 = 3" "nN s2 = 2"
    using envF_nZ[OF e2] envF_nN[OF e2] g1 by simp_all
  have lo: "length (omg s1) = nN s1 * nZ s1" using w1 by (simp add: wf_sim_def)
  have "omg s2 ! (0 * nZ s1 + 1) = omg s1 ! (0 * nZ s1 + 1) + abO 1 s1 (0, 1)"
    unfolding s2_def by (rule omg_update_pure[OF _ _ lo]) (simp_all add: g1)
  then have o2: "omg s2 ! 1 = 0"
    using o1 by (simp add: g1 abO_def dO)
  have l2: "length (omg s2) = 6" using w2 by (simp add: wf_sim_def g2)
  have sa: "solve_asserts b s2"
    unfolding solve_asserts_def sol_def g2 thomas_solve_3[OF g2(1)]
    using eps o2 l2 by (auto simp: less_Suc_eq numeral_3_eq_3)
  have p: "solveForPsi b s2 = Inr (solve_pure s2)"
    by (rule solveForPsi_complete[OF w2 sa])
  show ?thesis
    unfolding linear_step_def bindE_def k sum.case u
    using nd p by (simp add: s2_def s1_def)
qed

lemma ex_sim_step:
  "linear_step ex_build ex_sim =
     Inr (advance (solve_pure (update_pure 1 (linear_assign ex_build 1 1 1 ex_sim))))"
proof (rule small_linear_step[OF ex_sim_wf])
  show "bc_asserts ex_build ex_sim"
    unfolding bc_asserts_def ex_sim_fields
    by (auto simp: less_2_cases_iff ex_build_def)
qed (simp_all add: ex_sim_fields ex_build_def)

subsection \<open>Completion of the linear tendency pass\<close>

lemma forM_checked:
  assumes "\<And>pre x post. xs = pre @ x # post \<Longrightarrow>
             body x (fold g pre s) = (if C x then Inr (g x (fold g pre s)) else Inl e)"
  shows "forM xs body s = (if \<forall>x\<in>set xs. C x then Inr (fold g xs s) else Inl e)"
  using assms
proof (induction xs rule: rev_induct)
  case Nil
  show ?case by simp
next
  case (snoc x xs)
  have IH: "forM xs body s = (if \<forall>x\<in>set xs. C x then Inr (fold g xs s) else Inl e)"
    by (rule snoc.IH) (rule snoc.prems, simp)
  have last: "body x (fold g xs s) = (if C x then Inr (g x (fold g xs s)) else Inl e)"
    by (rule snoc.prems[of xs x "[]"]) simp
  show ?case unfolding forM_append IH by (simp add: bindE_def last)
qed

lemma upt_split:
  "[l ..< N] = pre @ n # post \<Longrightarrow> pre = [l ..< n] \<and> l \<le> n \<and> n < N"
proof (induction pre arbitrary: l)
  case Nil
  then show ?case by (simp add: upt_eq_Cons_conv)
next
  case (Cons p pre)
  from Cons.prems have p: "p = l" and r: "[Suc l ..< N] = pre @ n # post"
    by (auto simp: upt_eq_Cons_conv)
  from Cons.IH[OF r] have "pre = [Suc l ..< n]" "Suc l \<le> n" "n < N" by simp_all
  then show ?case by (simp add: p upt_conv_Cons)
qed

lemma linear_probe_fold:
  assumes w: "wf_sim b s" and k: "k < nZ s"
    and v: "\<And>n' k'. (n', k') \<in> set xs \<Longrightarrow> l \<le> n' \<and> n' < nN s \<and> k' < nZ s"
    and m: "current s = 0 \<and> l = 0 \<Longrightarrow> (0, k) \<in> set xs"
  shows "dOmgdt (fold (\<lambda>(n, k). linear_assign b l n k) xs s) ! k = linear_probe b l s k"
proof (cases "current s = 0 \<and> l = 0")
  case True
  have N: "1 \<le> nN s" and lO: "length (dOmgdt s) = 2 * nN s * nZ s"
    using w by (simp_all add: wf_sim_def)
  have i: "di s (0, k) = k" using True by (simp add: di_def)
  have "k < nN s * nZ s" using cell_bound[of 0 "nN s" k "nZ s"] N k by simp
  then have b: "di s (0, k) < length (dOmgdt s)" unfolding i lO by simp
  have "fold (\<lambda>x ys. ys[di s x := (\<lambda>(n, k). linO b s n k) x]) xs (dOmgdt s) ! di s (0, k)
          = (\<lambda>(n, k). linO b s n k) (0, k)"
  proof (rule fold_upd_hit[where idx = "di s" and x = "(0, k)", OF m[OF True] b])
    fix x' assume x': "x' \<in> set xs" and e: "di s x' = di s (0, k)"
    obtain n' k' where x: "x' = (n', k')" by (cases x')
    from v[OF x'[unfolded x]] have "k' < nZ s" by simp
    from di_eq_iff[OF this k, of n' 0] e have "x' = (0, k)" by (simp add: x)
    then show "(\<lambda>(n, k). linO b s n k) x' = (\<lambda>(n, k). linO b s n k) (0, k)" by simp
  qed
  then show ?thesis unfolding dOmgdt_fold_linear by (simp add: i linear_probe_def True)
next
  case False
  have N: "1 \<le> nN s" using w by (simp add: wf_sim_def)
  have "k \<notin> di s ` set xs"
  proof
    assume "k \<in> di s ` set xs"
    then obtain n' k' where x': "(n', k') \<in> set xs" and e: "k = di s (n', k')" by auto
    from v[OF x'] have r: "l \<le> n'" "n' < nN s" "k' < nZ s" by simp_all
    have "current s * nZ s * nN s + n' * nZ s + k' = 0 * nZ s * nN s + 0 * nZ s + k"
      using e by (simp add: di_def)
    from slot_inj[OF r(2,3) _ k this] N have "current s = 0 \<and> n' = 0" by simp
    with r(1) False show False by simp
  qed
  then show ?thesis unfolding dOmgdt_fold_linear
    by (simp add: fold_upd_other linear_probe_def False)
qed

lemma linear_inner:
  assumes w: "wf_sim b s" and n: "l \<le> n" "n < nN s"
    and u: "u = fold (\<lambda>(n, k). linear_assign b l n k) (List.product [l ..< n] [1 ..< nZ s - 1]) s"
  shows "forM [1 ..< nZ s - 1] (linear_body b l n) u =
     (if \<forall>k\<in>set [1 ..< nZ s - 1]. linear_probe b l s k < EPSILON b
      then Inr (fold (linear_assign b l n) [1 ..< nZ s - 1] u) else Inl AssertionFailed)"
proof (rule forM_checked[where C = "\<lambda>k. linear_probe b l s k < EPSILON b"
      and g = "linear_assign b l n"])
  fix pre k post assume sp: "[1 ..< nZ s - 1] = pre @ k # post"
  from upt_split[OF sp] have pre: "pre = [1 ..< k]" and k1: "1 \<le> k" and k2: "k < nZ s - 1"
    by simp_all
  have kZ: "k < nZ s" using k2 by arith
  let ?v = "fold (linear_assign b l n) pre u"
  let ?xs = "List.product [l ..< n] [1 ..< nZ s - 1] @ map (Pair n) (pre @ [k])"
  have v: "linear_assign b l n k ?v = fold (\<lambda>(n, k). linear_assign b l n k) ?xs s"
    by (simp add: u fold_map comp_def)
  have probe: "dOmgdt (linear_assign b l n k ?v) ! k = linear_probe b l s k"
    unfolding v
  proof (rule linear_probe_fold[OF w kZ])
    fix n' k' assume "(n', k') \<in> set ?xs"
    then have "(l \<le> n' \<and> n' < n \<and> 1 \<le> k' \<and> k' < nZ s - 1) \<or> (n' = n \<and> k' \<le> k)"
      by (auto simp: pre)
    then show "l \<le> n' \<and> n' < nN s \<and> k' < nZ s" using n k2 by auto
  next
    assume "current s = 0 \<and> l = 0"
    then have l: "l = 0" by simp
    show "(0, k) \<in> set ?xs"
    proof (cases "n = 0")
      case True
      then show ?thesis by simp
    next
      case False
      then show ?thesis using l k1 k2 by simp
    qed
  qed
  show "linear_body b l n k ?v =
      (if linear_probe b l s k < EPSILON b then Inr (linear_assign b l n k ?v) else Inl AssertionFailed)"
    by (simp add: linear_body_def Let_def assert_def probe)
qed

lemma computeLinearDerivatives_complete:
  assumes w: "wf_sim b s"
  shows "computeLinearDerivatives b l s =
     (if linear_asserts b l s then Inr (linear_pure b l s) else Inl AssertionFailed)"
proof -
  let ?ks = "[1 ..< nZ s - 1]"
  let ?C = "\<lambda>n::nat. \<forall>k\<in>set ?ks. linear_probe b l s k < EPSILON b"
  have "forM [l ..< nN s] (\<lambda>n. forM ?ks (linear_body b l n)) s =
      (if \<forall>n\<in>set [l ..< nN s]. ?C n
       then Inr (fold (\<lambda>n. fold (linear_assign b l n) ?ks) [l ..< nN s] s) else Inl AssertionFailed)"
  proof (rule forM_checked[where C = ?C and g = "\<lambda>n. fold (linear_assign b l n) ?ks"])
    fix pre n post assume sp: "[l ..< nN s] = pre @ n # post"
    from upt_split[OF sp] have pre: "pre = [l ..< n]" and n: "l \<le> n" "n < nN s" by simp_all
    show "forM ?ks (linear_body b l n) (fold (\<lambda>n. fold (linear_assign b l n) ?ks) pre s) =
        (if ?C n then Inr (fold (linear_assign b l n) ?ks (fold (\<lambda>n. fold (linear_assign b l n) ?ks) pre s))
         else Inl AssertionFailed)"
      by (rule linear_inner[OF w n]) (simp only: fold_product pre)
  qed
  moreover have "(\<forall>n\<in>set [l ..< nN s]. ?C n) \<longleftrightarrow> linear_asserts b l s"
    unfolding linear_asserts_def by auto
  ultimately show ?thesis
    unfolding computeLinearDerivatives_def linear_pure_def by (simp only: fold_product)
qed

lemma linear_pure_cell:
  assumes w: "wf_sim b s" and n: "l \<le> n" "n < nN s" and k: "1 \<le> k" "k \<le> nZ s - 2"
  shows "dTmpdt (linear_pure b l s) ! di s (n, k) = linT l s n k"
    and "dOmgdt (linear_pure b l s) ! di s (n, k) = linO b s n k"
proof -
  let ?xs = "List.product [l ..< nN s] [1 ..< nZ s - 1]"
  have Z: "3 \<le> nZ s" and c: "current s < 2"
    and lT: "length (dTmpdt s) = 2 * nN s * nZ s" and lO: "length (dOmgdt s) = 2 * nN s * nZ s"
    using w by (simp_all add: wf_sim_def)
  have kZ: "k < nZ s" using k(2) Z by simp
  have mem: "(n, k) \<in> set ?xs" using n k Z by simp
  have bound: "di s (n, k) < 2 * nN s * nZ s"
    unfolding di_def prod.case by (rule slot_bound[OF c n(2) kZ])
  have inj: "x = (n, k)" if "x \<in> set ?xs" "di s x = di s (n, k)" for x
  proof -
    obtain n' k' where x: "x = (n', k')" by (cases x)
    from that(1) have "k' < nZ s - 1" by (simp add: x)
    then have "k' < nZ s" by arith
    from di_eq_iff[OF this kZ, of n' n] that(2) show ?thesis by (simp add: x)
  qed
  have "dTmpdt (linear_pure b l s) ! di s (n, k) = (\<lambda>(n, k). linT l s n k) (n, k)"
    unfolding linear_pure_def dTmpdt_fold_linear
    by (rule fold_upd_hit[OF mem]) (use bound lT inj in auto)
  then show "dTmpdt (linear_pure b l s) ! di s (n, k) = linT l s n k" by simp
  have "dOmgdt (linear_pure b l s) ! di s (n, k) = (\<lambda>(n, k). linO b s n k) (n, k)"
    unfolding linear_pure_def dOmgdt_fold_linear
    by (rule fold_upd_hit[OF mem]) (use bound lO inj in auto)
  then show "dOmgdt (linear_pure b l s) ! di s (n, k) = linO b s n k" by simp
qed

text \<open>
  Claim C1. On a well-formed simulator the linear pass started with \<open>n_start = l\<close> returns exactly when its \<^verbatim>\<open>assert\<close>s hold (\<open>linear_asserts\<close>, a condition on the state on entry), and otherwise ends the run at the first \<^verbatim>\<open>assert\<close> that fails. When it returns, the state is \<open>linear_pure b l s\<close>, where for every mode \<open>n\<close> with \<open>l \<le> n < nN\<close> and every interior row \<open>1 \<le> k \<le> nZ - 2\<close> the current slot holds \<open>dT/dt[n,k] = d\<^sup>2T\<^sub>n/dz\<^sup>2 - (n \<pi>/a)\<^sup>2 T\<^sub>n\<close>, to which \<open>- tmpGrad (n \<pi>/a) \<psi>\<^sub>n\<close> is added exactly when \<open>l = 1\<close> (the linear run mode), and \<open>d\<omega>/dt[n,k] = Pr (d\<^sup>2\<omega>\<^sub>n/dz\<^sup>2 - (n \<pi>/a)\<^sup>2 \<omega>\<^sub>n + Ra (n \<pi>/a) T\<^sub>n)\<close>; a \<^verbatim>\<open>DDC\<close> build subtracts \<open>RaXi \<tau> Pr (n \<pi>/a) \<xi>\<^sub>n\<close> from the latter. The fields are those on entry.
\<close>

theorem linear_tendencies:
  assumes "wf_sim b s"
  shows "computeLinearDerivatives b l s =
           (if linear_asserts b l s then Inr (linear_pure b l s) else Inl AssertionFailed)
     \<and> (\<forall>n k. l \<le> n \<and> n < nN s \<and> 1 \<le> k \<and> k \<le> nZ s - 2 \<longrightarrow>
         dTmpdt (linear_pure b l s) ! (current s * nZ s * nN s + n * nZ s + k) =
           dfdz2 (tmp s) (n * nZ s + k) (dz s)
           - (real n * M_PI / real (a s))\<^sup>2 * tmp s ! (n * nZ s + k)
           + (if l = 1
              then - real_of_int (tmpGrad s) * (real n * M_PI / real (a s)) * psi s ! (n * nZ s + k)
              else 0)
       \<and> dOmgdt (linear_pure b l s) ! (current s * nZ s * nN s + n * nZ s + k) =
           Pr s * (dfdz2 (omg s) (n * nZ s + k) (dz s)
                   - (real n * M_PI / real (a s))\<^sup>2 * omg s ! (n * nZ s + k)
                   + Ra s * (real n * M_PI / real (a s)) * tmp s ! (n * nZ s + k))
           + (if DDC b
              then - RaXi s * tau s * Pr s * (real n * M_PI / real (a s)) * xi s ! (n * nZ s + k)
              else 0))"
proof (intro conjI allI impI)
  show "computeLinearDerivatives b l s =
      (if linear_asserts b l s then Inr (linear_pure b l s) else Inl AssertionFailed)"
    by (rule computeLinearDerivatives_complete[OF assms])
next
  fix n k assume r: "l \<le> n \<and> n < nN s \<and> 1 \<le> k \<and> k \<le> nZ s - 2"
  then have n: "l \<le> n" "n < nN s" and k: "1 \<le> k" "k \<le> nZ s - 2" by simp_all
  have i: "k + n * nZ s = n * nZ s + k" by simp
  show "dTmpdt (linear_pure b l s) ! (current s * nZ s * nN s + n * nZ s + k) =
           dfdz2 (tmp s) (n * nZ s + k) (dz s)
           - (real n * M_PI / real (a s))\<^sup>2 * tmp s ! (n * nZ s + k)
           + (if l = 1
              then - real_of_int (tmpGrad s) * (real n * M_PI / real (a s)) * psi s ! (n * nZ s + k)
              else 0)"
    using linear_pure_cell(1)[OF assms n k]
    unfolding di_def prod.case linT_def i by (simp add: algebra_simps)
  show "dOmgdt (linear_pure b l s) ! (current s * nZ s * nN s + n * nZ s + k) =
           Pr s * (dfdz2 (omg s) (n * nZ s + k) (dz s)
                   - (real n * M_PI / real (a s))\<^sup>2 * omg s ! (n * nZ s + k)
                   + Ra s * (real n * M_PI / real (a s)) * tmp s ! (n * nZ s + k))
           + (if DDC b
              then - RaXi s * tau s * Pr s * (real n * M_PI / real (a s)) * xi s ! (n * nZ s + k)
              else 0)"
    using linear_pure_cell(2)[OF assms n k]
    unfolding di_def prod.case linO_def i by (simp add: algebra_simps)
qed

lemma ex_grid_fields:
  "nN ex_grid = 3" "nZ ex_grid = 4" "current ex_grid = 0" "a ex_grid = 2" "dz ex_grid = 1 / 3"
  "Pr ex_grid = 1" "Ra ex_grid = 1000" "tmpGrad ex_grid = - 1"
  "dTmpdt ex_grid = replicate 24 0" "dOmgdt ex_grid = replicate 24 0"
  "tmp ex_grid = [1, 1 / 2, 1 / 3, 0, 0, 1, 2, 0, 0, 3, 1, 0]"
  "omg ex_grid = [0, 0, 0, 0, 0, 7, 1, 0, 0, 2, 5, 0]"
  "psi ex_grid = [0, 0, 0, 0, 0, 2, 1, 0, 0, 1, 4, 0]"
  by (simp_all add: ex_grid_def init_def)

lemma ex_build_fields: "DDC ex_build = False" "EPSILON ex_build = 1 / 1000000"
  by (simp_all add: ex_build_def)

lemma ex_grid_wf: "wf_sim ex_build ex_grid"
  by (simp add: wf_sim_def ex_build_def ex_grid_def init_def)

lemma ex_grid_asserts: "linear_asserts ex_build l ex_grid"
proof -
  have u: "[Suc 0 ..< 3] = [Suc 0, 2]" by (simp add: upt_rec)
  show ?thesis
    by (simp add: linear_asserts_def linear_probe_def ex_grid_fields u linO_def dfdz2_def
        ex_build_fields)
qed

text \<open>
  The pass on the example with three modes and two interior rows, in the linear run mode (\<open>l = 1\<close>) and in the nonlinear run mode (\<open>l = 0\<close>): both return; cell 10 is row 2 of mode 2 and cell 1 is row 1 of mode 0, in slot 0.
\<close>

theorem linear_tendencies_witness:
  "wf_sim ex_build ex_grid
   \<and> computeLinearDerivatives ex_build 1 ex_grid = Inr (linear_pure ex_build 1 ex_grid)
   \<and> dTmpdt (linear_pure ex_build 1 ex_grid) ! 10 = 9 - M_PI\<^sup>2 + 4 * M_PI
   \<and> dOmgdt (linear_pure ex_build 1 ex_grid) ! 10 = - 72 - 5 * M_PI\<^sup>2 + 1000 * M_PI
   \<and> computeLinearDerivatives ex_build 0 ex_grid = Inr (linear_pure ex_build 0 ex_grid)
   \<and> dTmpdt (linear_pure ex_build 0 ex_grid) ! 10 = 9 - M_PI\<^sup>2
   \<and> dOmgdt (linear_pure ex_build 0 ex_grid) ! 10 = - 72 - 5 * M_PI\<^sup>2 + 1000 * M_PI
   \<and> dTmpdt (linear_pure ex_build 0 ex_grid) ! 1 = 3
   \<and> dOmgdt (linear_pure ex_build 0 ex_grid) ! 1 = 0"
proof -
  note L = linear_tendencies[OF ex_grid_wf, of 1]
  note N = linear_tendencies[OF ex_grid_wf, of 0]
  have e: "(2::nat) * 4 + 2 = 10" "(0::nat) * 4 + 2 = 2" by simp_all
  have l1: "dTmpdt (linear_pure ex_build 1 ex_grid) ! 10 = 9 - M_PI\<^sup>2 + 4 * M_PI
      \<and> dOmgdt (linear_pure ex_build 1 ex_grid) ! 10 = - 72 - 5 * M_PI\<^sup>2 + 1000 * M_PI"
    using L[THEN conjunct2, rule_format, of 2 2]
    by (simp add: ex_grid_fields ex_build_fields dfdz2_def power2_eq_square)
  have n1: "dTmpdt (linear_pure ex_build 0 ex_grid) ! 10 = 9 - M_PI\<^sup>2
      \<and> dOmgdt (linear_pure ex_build 0 ex_grid) ! 10 = - 72 - 5 * M_PI\<^sup>2 + 1000 * M_PI"
    using N[THEN conjunct2, rule_format, of 2 2]
    by (simp add: ex_grid_fields ex_build_fields dfdz2_def power2_eq_square)
  have n0: "dTmpdt (linear_pure ex_build 0 ex_grid) ! 1 = 3
      \<and> dOmgdt (linear_pure ex_build 0 ex_grid) ! 1 = 0"
    using N[THEN conjunct2, rule_format, of 0 1]
    by (simp add: ex_grid_fields ex_build_fields dfdz2_def power2_eq_square)
  from L[THEN conjunct1] N[THEN conjunct1] ex_grid_asserts ex_grid_wf l1 n1 n0
  show ?thesis by simp
qed

subsection \<open>Completion of the integrator steps\<close>

lemma linear_pass_pure:
  assumes "wf_sim b s" and "linear_asserts b l s"
  shows "computeLinearDerivatives b l s = Inr (linear_pure b l s)"
  using computeLinearDerivatives_complete[OF assms(1), of l] assms(2) by simp

lemma nonlinear_step_complete:
  assumes w: "wf_sim b s" and la: "linear_asserts b 0 s"
    and ua: "update_asserts b f (nonlinear_pure (linear_pure b 0 s))"
    and sa: "solve_asserts b (update_pure f (nonlinear_pure (linear_pure b 0 s)))"
  shows "nonlinear_step b f s =
           Inr (advance (solve_pure (update_pure f (nonlinear_pure (linear_pure b 0 s)))))"
proof -
  define s1 where "s1 = linear_pure b 0 s"
  define s2 where "s2 = nonlinear_pure s1"
  define s3 where "s3 = update_pure f s2"
  have k: "computeLinearDerivatives b 0 s = Inr s1"
    unfolding s1_def by (rule linear_pass_pure[OF w la])
  have w1: "wf_sim b s1" using w wf_shape[OF shape_linear[OF k]] by simp
  have w2: "wf_sim b s2" unfolding s2_def using w1 wf_shape[OF shape_nonlinear] by simp
  have u: "updateTmpAndOmg b f s2 = Inr s3"
    unfolding s3_def by (rule updateTmpAndOmg_complete[OF w2 ua[folded s1_def, folded s2_def]])
  have w3: "wf_sim b s3" unfolding s3_def using w2 wf_shape[OF shape_update] by simp
  have p: "solveForPsi b s3 = Inr (solve_pure s3)"
    by (rule solveForPsi_complete[OF w3 sa[folded s1_def, folded s2_def, folded s3_def]])
  show ?thesis
    unfolding nonlinear_step_def bindE_def k sum.case computeNonLinearDerivatives_eq
      s2_def[symmetric] u p s3_def[symmetric] s1_def[symmetric]
    by simp
qed

lemma linear_step_complete:
  assumes w: "wf_sim b s" and la: "linear_asserts b 1 s"
    and ua: "update_asserts b 1 (linear_pure b 1 s)"
    and sa: "solve_asserts b
        (if DDC b then updateXi 1 (update_pure 1 (linear_pure b 1 s))
         else update_pure 1 (linear_pure b 1 s))"
  shows "linear_step b s =
           Inr (advance (solve_pure
             (if DDC b then updateXi 1 (update_pure 1 (linear_pure b 1 s))
              else update_pure 1 (linear_pure b 1 s))))"
proof -
  define s1 where "s1 = linear_pure b 1 s"
  define s2 where "s2 = update_pure 1 s1"
  define s3 where "s3 = (if DDC b then updateXi 1 s2 else s2)"
  have k: "computeLinearDerivatives b 1 s = Inr s1"
    unfolding s1_def by (rule linear_pass_pure[OF w la])
  have w1: "wf_sim b s1" using w wf_shape[OF shape_linear[OF k]] by simp
  have u: "updateTmpAndOmg b 1 s1 = Inr s2"
    unfolding s2_def by (rule updateTmpAndOmg_complete[OF w1 ua[folded s1_def]])
  have w2: "wf_sim b s2" unfolding s2_def using w1 wf_shape[OF shape_update] by simp
  have w3: "wf_sim b s3" unfolding s3_def using w2 wf_shape[OF shape_updateXi] by simp
  have p: "solveForPsi b s3 = Inr (solve_pure s3)"
    by (rule solveForPsi_complete[OF w3 sa[folded s1_def, folded s2_def, folded s3_def]])
  show ?thesis
    unfolding linear_step_def bindE_def k sum.case u
      s3_def[symmetric] p s2_def[symmetric] s1_def[symmetric]
    by (simp add: s3_def)
qed

lemma nonlinear_mean_omega:
  assumes k: "1 \<le> k" "k < nZ s - 1" and j: "di s (0, k) < length (dOmgdt s)"
  shows "dOmgdt (nonlinear_pure s) ! di s (0, k) = dOmgdt s ! di s (0, k)"
proof -
  note acc = accum_nonlinear_pure[of s, unfolded accum_at_def]
  have r: "row s 0 (\<lambda>k. 0) (di s (0, k)) = 0" by (simp add: row_at[OF k])
  have m: "(\<Sum>n\<leftarrow>[1 ..< nN s]. modeO s n (di s (0, k))) = 0"
    by (rule sum_list_zero) (simp add: modeO_at[OF k])
  show ?thesis using acc j m by (simp add: r)
qed

lemma small_nonlinear_step:
  assumes w: "wf_sim b s" and g: "nZ s = 3" "nN s = 2" "current s = 0"
    and z: "dTmpdt s = replicate 12 0" "dOmgdt s = replicate 12 0"
    and eps: "0 < EPSILON b" and om: "omg s ! 0 = 0" "omg s ! 1 = 0" "omg s ! 2 = 0"
    and bc: "bc_asserts b s"
  shows "linear_asserts b 0 s"
    and "nonlinear_step b f s =
           Inr (advance (solve_pure (update_pure f (nonlinear_pure (linear_pure b 0 s)))))"
proof -
  define s1 where "s1 = linear_pure b 0 s"
  define s2 where "s2 = nonlinear_pure s1"
  define s3 where "s3 = update_pure f s2"
  have u: "[Suc 0 ..< 2] = [Suc 0]" by (simp add: upt_rec)
  have l0: "linO b s 0 1 = 0"
    using om by (simp add: linO_def dfdz2_def numeral_2_eq_2)
  show la: "linear_asserts b 0 s"
    using eps l0 by (simp add: linear_asserts_def linear_probe_def g u)
  have k: "computeLinearDerivatives b 0 s = Inr s1"
    unfolding s1_def by (rule linear_pass_pure[OF w la])
  have e1: "env s1 = env s" by (rule env_linear_pass[OF k])
  have w1: "wf_sim b s1" using w wf_shape[OF shape_linear[OF k]] by simp
  have bz: "boundary_zero s" by (simp add: boundary_zero_def g z)
  have bz1: "boundary_zero s1" by (rule boundary_zero_linear[OF w bz k])
  have g1: "nZ s1 = 3" "nN s1 = 2" "current s1 = 0"
    using env_nZ[OF e1] env_nN[OF e1] env_current[OF e1] g by simp_all
  have e2: "env s2 = env s1" unfolding s2_def by (rule nonlinear_pure_frame(1))
  have w2: "wf_sim b s2" unfolding s2_def using w1 wf_shape[OF shape_nonlinear] by simp
  have bz2: "boundary_zero s2" unfolding s2_def by (rule boundary_zero_nonlinear[OF w1 bz1])
  have g2: "nZ s2 = 3" "nN s2 = 2" "current s2 = 0" "omg s2 = omg s"
    using env_nZ[OF e2] env_nN[OF e2] env_current[OF e2] env_omg[OF e2] env_omg[OF e1] g1
    by simp_all
  have e20: "env s2 = env s" using e2 e1 by simp
  have ua: "update_asserts b f s2"
    by (rule update_asserts_boundary_zero[OF _ bz2 bc_asserts_env[OF e20 bc]]) (simp add: g2)
  have lens: "length (dOmgdt s) = 12" by (simp add: z)
  have len1: "length (dOmgdt s1) = 12" using linear_lengths(2)[OF k] lens by simp
  have ni: "\<not> interior_current s 7"
    by (auto simp: interior_current_def g less_2_cases_iff)
  have ni1: "\<not> interior_current s1 7"
    by (auto simp: interior_current_def g1 less_2_cases_iff)
  have d1: "dOmgdt s1 ! 1 = 0"
    using linear_pure_cell(2)[OF w, of 0 0 1 ] l0 by (simp add: g di_def s1_def)
  have d21: "dOmgdt s2 ! 1 = 0"
    using nonlinear_mean_omega[of 1 s1] d1 by (simp add: g1 di_def s2_def len1)
  have d7: "dOmgdt s1 ! 7 = 0"
    using linear_frame(2)[OF k ni] by (simp add: z)
  have d27: "dOmgdt s2 ! 7 = 0"
    unfolding s2_def using nonlinear_frame(2)[OF ni1] d7 len1 by simp
  have w3: "wf_sim b s3" unfolding s3_def using w2 wf_shape[OF shape_update] by simp
  have e3: "envF s3 = envF s2" unfolding s3_def by (rule envF_update_pure)
  have g3: "nZ s3 = 3" "nN s3 = 2"
    using envF_nZ[OF e3] envF_nN[OF e3] g2 by simp_all
  have lo: "length (omg s2) = nN s2 * nZ s2" using w2 by (simp add: wf_sim_def)
  have "omg s3 ! (0 * nZ s2 + 1) = omg s2 ! (0 * nZ s2 + 1) + abO f s2 (0, 1)"
    unfolding s3_def by (rule omg_update_pure[OF _ _ lo]) (simp_all add: g2)
  then have o3: "omg s3 ! 1 = 0"
    using om(2) d21 by (simp add: g2 abO_def d27)
  have l3: "length (omg s3) = 6" using w3 by (simp add: wf_sim_def g3)
  have sa: "solve_asserts b s3"
    unfolding solve_asserts_def sol_def g3 thomas_solve_3[OF g3(1)]
    using eps o3 l3 by (auto simp: less_Suc_eq numeral_3_eq_3)
  show "nonlinear_step b f s =
           Inr (advance (solve_pure (update_pure f (nonlinear_pure (linear_pure b 0 s)))))"
    by (rule nonlinear_step_complete[OF w la ua[unfolded s2_def s1_def]
          sa[unfolded s3_def s2_def s1_def]])
qed

lemma ex_sim_nonlinear_step:
  "nonlinear_step ex_build f ex_sim =
     Inr (advance (solve_pure (update_pure f (nonlinear_pure (linear_pure ex_build 0 ex_sim)))))"
proof (rule small_nonlinear_step(2)[OF ex_sim_wf])
  show "bc_asserts ex_build ex_sim"
    unfolding bc_asserts_def ex_sim_fields
    by (auto simp: less_2_cases_iff ex_build_def)
qed (simp_all add: ex_sim_fields ex_build_def)

lemma init_boundary_invariant:
  assumes "0 < nZ'"
  shows "boundary_zero (init b nZ' nN' dt' Ra' Pr' a' RaXi' tau' tbs md c t' tt sf ic g h)"
    and "omg (init b nZ' nN' dt' Ra' Pr' a' RaXi' tau' tbs md c t' tt sf ic g h)
           = replicate (nN' * nZ') 0"
proof -
  have b: "c' * nZ' * nN' + n * nZ' + k < 2 * nN' * nZ'" if "c' < 2" "n < nN'" "k < nZ'" for c' n k
    by (rule slot_bound[OF that])
  show "boundary_zero (init b nZ' nN' dt' Ra' Pr' a' RaXi' tau' tbs md c t' tt sf ic g h)"
    using b[of _ _ 0] b[of _ _ "nZ' - 1"] assms by (simp add: boundary_zero_def init_def)
  show "omg (init b nZ' nN' dt' Ra' Pr' a' RaXi' tau' tbs md c t' tt sf ic g h)
           = replicate (nN' * nZ') 0"
    by (simp add: init_def)
qed

subsection \<open>The boundary conditions after a step\<close>



subsection \<open>The kernels and the steps as functions of the state on entry\<close>

lemma forM_asserts_iff:
  "forM ks (\<lambda>k s. assert (P k s) s) u =
     (if \<forall>k\<in>set ks. P k u then Inr u else Inl AssertionFailed)"
  by (induction ks) (simp_all add: assert_def)

lemma ball_upt0: "(\<forall>n\<in>set [0 ..< N]. P n) \<longleftrightarrow> (\<forall>n<N. P n)"
  by auto

lemma updateTmpAndOmg_iff:
  assumes w: "wf_sim b s"
  shows "updateTmpAndOmg b f s =
     (if update_asserts b f s then Inr (update_pure f s) else Inl AssertionFailed)"
proof -
  let ?C = "\<lambda>n. (if 0 < n then tmp s ! (n * nZ s) + abT f s (n, 0) < EPSILON b
         else tmp s ! (n * nZ s) + abT f s (n, 0) - 1 < EPSILON b) \<and>
        tmp s ! (n * nZ s + (nZ s - 1)) + abT f s (n, nZ s - 1) < EPSILON b \<and>
        omg s ! (n * nZ s) + abO f s (n, 0) < EPSILON b \<and>
        omg s ! (n * nZ s + (nZ s - 1)) + abO f s (n, nZ s - 1) < EPSILON b"
  let ?g = "\<lambda>n. fold (update_assign f n) [0 ..< nZ s]"
  have "forM [0 ..< nN s] (update_mode b f) s =
      (if \<forall>n\<in>set [0 ..< nN s]. ?C n then Inr (fold ?g [0 ..< nN s] s) else Inl AssertionFailed)"
  proof (rule forM_checked[where C = ?C and g = ?g])
    fix pre m post assume sp: "[0 ..< nN s] = pre @ m # post"
    from upt_split[OF sp] have pre: "pre = [0 ..< m]" and mN: "m < nN s" by simp_all
    let ?u = "fold (\<lambda>(n, k). update_assign f n k) (List.product [0 ..< m] [0 ..< nZ s]) s"
    define u1 where
      "u1 = fold (\<lambda>(n, k). update_assign f n k) (List.product [0 ..< Suc m] [0 ..< nZ s]) s"
    have pu: "fold ?g pre s = ?u" by (simp only: pre fold_product)
    have Z0: "0 < nZ s" and Z1: "nZ s - 1 < nZ s"
      and lT: "length (tmp s) = nN s * nZ s" and lO: "length (omg s) = nN s * nZ s"
      using w by (simp_all add: wf_sim_def)
    have eu: "envF ?u = envF s" by (rule envF_update_fold)
    have Zu: "nZ ?u = nZ s" using eu by (rule envF_nZ)
    have u1: "fold (update_assign f m) [0 ..< nZ s] ?u = u1"
      unfolding u1_def by (simp add: fold_product[symmetric])
    have Zu1: "nZ u1 = nZ s" unfolding u1_def by (rule envF_nZ, rule envF_update_fold)
    have b0: "m * nZ s + 0 < length (tmp s)" "m * nZ s + 0 < length (omg s)"
      unfolding lT lO using cell_bound[OF mN Z0] by simp_all
    have b1: "m * nZ s + (nZ s - 1) < length (tmp s)" "m * nZ s + (nZ s - 1) < length (omg s)"
      unfolding lT lO using cell_bound[OF mN Z1] by simp_all
    have mem: "m \<in> set [0 ..< Suc m]" and d: "distinct [0 ..< Suc m]" by simp_all
    have v0: "tmp u1 ! (m * nZ s + 0) = tmp s ! (m * nZ s + 0) + abT f s (m, 0)"
      unfolding u1_def tmp_update_fold by (rule update_cell[OF d mem Z0 b0(1)])
    have v1: "tmp u1 ! (m * nZ s + (nZ s - 1)) = tmp s ! (m * nZ s + (nZ s - 1)) + abT f s (m, nZ s - 1)"
      unfolding u1_def tmp_update_fold by (rule update_cell[OF d mem Z1 b1(1)])
    have v2: "omg u1 ! (m * nZ s + 0) = omg s ! (m * nZ s + 0) + abO f s (m, 0)"
      unfolding u1_def omg_update_fold by (rule update_cell[OF d mem Z0 b0(2)])
    have v3: "omg u1 ! (m * nZ s + (nZ s - 1)) = omg s ! (m * nZ s + (nZ s - 1)) + abO f s (m, nZ s - 1)"
      unfolding u1_def omg_update_fold by (rule update_cell[OF d mem Z1 b1(2)])
    have Z2: "m * nZ s + nZ s - Suc 0 = m * nZ s + (nZ s - Suc 0)" using Z0 by simp
    have "update_mode b f m ?u = (if ?C m then Inr u1 else Inl AssertionFailed)"
      unfolding update_mode_def bindE_def Zu u1 sum.case assert_def
      using v0 v1 v2 v3 by (cases "0 < m") (simp_all add: Zu1 Z2)
    then show "update_mode b f m (fold ?g pre s) =
        (if ?C m then Inr (?g m (fold ?g pre s)) else Inl AssertionFailed)"
      unfolding pu u1 .
  qed
  moreover have "(\<forall>n\<in>set [0 ..< nN s]. ?C n) \<longleftrightarrow> update_asserts b f s"
    unfolding update_asserts_def by (rule ball_upt0)
  ultimately show ?thesis
    unfolding updateTmpAndOmg_def update_pure_def by (simp only: fold_product)
qed

lemma solveForPsi_iff:
  assumes w: "wf_sim b s"
  shows "solveForPsi b s =
     (if solve_asserts b s then Inr (solve_pure s) else Inl AssertionFailed)"
proof -
  have N: "0 < nN s" and l: "length (psi s) = nN s * nZ s"
    using w by (simp_all add: wf_sim_def)
  have 1: "forM [0 ..< nN s] solve_mode s = Inr (solve_pure s)"
    unfolding solve_pure_def by (rule solve_prefix[OF w]) simp
  have Z: "nZ (solve_pure s) = nZ s" by (rule envP_nZ, rule envP_solve_pure)
  have c: "(\<forall>k\<in>set [0 ..< nZ s]. psi (solve_pure s) ! (nZ (solve_pure s) * 0 + k) < EPSILON b)
      \<longleftrightarrow> solve_asserts b s"
    unfolding solve_asserts_def ball_upt0 Z using psi_solve_cell[OF N _ l] by simp
  show ?thesis
    unfolding solveForPsi_def 1 bindE_def sum.case Z
    unfolding forM_asserts_iff c ..
qed

lemma nonlinear_step_iff:
  assumes w: "wf_sim b s"
  shows "nonlinear_step b f s =
     (if linear_asserts b 0 s
         \<and> update_asserts b f (nonlinear_pure (linear_pure b 0 s))
         \<and> solve_asserts b (update_pure f (nonlinear_pure (linear_pure b 0 s)))
      then Inr (advance (solve_pure (update_pure f (nonlinear_pure (linear_pure b 0 s)))))
      else Inl AssertionFailed)"
proof (cases "linear_asserts b 0 s")
  case False
  then show ?thesis
    by (simp add: nonlinear_step_def bindE_def computeLinearDerivatives_complete[OF w])
next
  case la: True
  define s1 where "s1 = linear_pure b 0 s"
  define s2 where "s2 = nonlinear_pure s1"
  define s3 where "s3 = update_pure f s2"
  have k: "computeLinearDerivatives b 0 s = Inr s1"
    unfolding s1_def by (rule linear_pass_pure[OF w la])
  have w1: "wf_sim b s1" using w wf_shape[OF shape_linear[OF k]] by simp
  have w2: "wf_sim b s2" unfolding s2_def using w1 wf_shape[OF shape_nonlinear] by simp
  have w3: "wf_sim b s3" unfolding s3_def using w2 wf_shape[OF shape_update] by simp
  note u = updateTmpAndOmg_iff[OF w2, of f, folded s3_def]
  note p = solveForPsi_iff[OF w3]
  have "nonlinear_step b f s =
     (if update_asserts b f s2 \<and> solve_asserts b s3
      then Inr (advance (solve_pure s3)) else Inl AssertionFailed)"
    unfolding nonlinear_step_def bindE_def k sum.case computeNonLinearDerivatives_eq
      s2_def[symmetric] u
    by (simp add: p)
  then show ?thesis using la unfolding s3_def s2_def s1_def by simp
qed

lemma linear_step_iff:
  assumes w: "wf_sim b s"
  shows "linear_step b s =
     (if linear_asserts b 1 s
         \<and> update_asserts b 1 (linear_pure b 1 s)
         \<and> solve_asserts b (if DDC b then updateXi 1 (update_pure 1 (linear_pure b 1 s))
                             else update_pure 1 (linear_pure b 1 s))
      then Inr (advance (solve_pure (if DDC b then updateXi 1 (update_pure 1 (linear_pure b 1 s))
                             else update_pure 1 (linear_pure b 1 s))))
      else Inl AssertionFailed)"
proof (cases "linear_asserts b 1 s")
  case False
  then show ?thesis
    by (simp add: linear_step_def bindE_def computeLinearDerivatives_complete[OF w])
next
  case la: True
  define s1 where "s1 = linear_pure b 1 s"
  define s2 where "s2 = update_pure 1 s1"
  define s3 where "s3 = (if DDC b then updateXi 1 s2 else s2)"
  have k: "computeLinearDerivatives b 1 s = Inr s1"
    unfolding s1_def by (rule linear_pass_pure[OF w la])
  have w1: "wf_sim b s1" using w wf_shape[OF shape_linear[OF k]] by simp
  have w2: "wf_sim b s2" unfolding s2_def using w1 wf_shape[OF shape_update] by simp
  have w3: "wf_sim b s3" unfolding s3_def using w2 wf_shape[OF shape_updateXi] by simp
  note u = updateTmpAndOmg_iff[OF w1, of 1, folded s2_def]
  note p = solveForPsi_iff[OF w3]
  have "linear_step b s =
     (if update_asserts b 1 s1 \<and> solve_asserts b s3
      then Inr (advance (solve_pure s3)) else Inl AssertionFailed)"
    unfolding linear_step_def bindE_def k sum.case u
    by (simp add: p s3_def[symmetric])
  then show ?thesis using la unfolding s3_def s2_def s1_def by simp
qed

subsection \<open>The iteration of the nonlinear driver\<close>

lemma saveKineticEnergy_sim:
  "fst (saveKineticEnergy b (s, fs)) = s\<lparr>kePrev := keCurrent s, keCurrent := calcKineticEnergy s\<rparr>"
  by (simp add: saveKineticEnergy_def Let_def)

lemma save_sim:
  "save b (s, fs) = Inr (s', fs') \<Longrightarrow> s' = s\<lparr>saveNumber := saveNumber s + 1\<rparr>"
  by (simp add: save_def Let_def split: if_splits)

lemma schedule_ke_sim:
  "\<exists>x y. simulator (schedule_ke b d) = (simulator d)\<lparr>kePrev := x, keCurrent := y\<rparr>"
proof (cases "KEsaveTime d - t (simulator d) < EPSILON b")
  case True
  obtain s fs where r: "saveKineticEnergy b (simulator d, disk d) = (s, fs)"
    by (cases "saveKineticEnergy b (simulator d, disk d)")
  from saveKineticEnergy_sim[of b "simulator d" "disk d"] r
  have "s = (simulator d)\<lparr>kePrev := keCurrent (simulator d),
                           keCurrent := calcKineticEnergy (simulator d)\<rparr>" by simp
  then show ?thesis using True r by (auto simp: schedule_ke_def)
next
  case False
  have "simulator d = (simulator d)\<lparr>kePrev := kePrev (simulator d),
                                  keCurrent := keCurrent (simulator d)\<rparr>" by simp
  then show ?thesis using False unfolding schedule_ke_def by (simp only: if_False) blast
qed

lemma schedule_sim:
  assumes "schedule_save b (schedule_cfl b (schedule_ke b d)) = Inr d1"
  shows "\<exists>x y z. simulator d1 = (simulator d)\<lparr>kePrev := x, keCurrent := y, saveNumber := z\<rparr>"
proof -
  from schedule_ke_sim[of b d] obtain x y
    where 1: "simulator (schedule_ke b d) = (simulator d)\<lparr>kePrev := x, keCurrent := y\<rparr>"
    by blast
  have 2: "simulator (schedule_cfl b d') = simulator d'" for d'
    by (simp add: schedule_cfl_def)
  let ?d = "schedule_cfl b (schedule_ke b d)"
  have "\<exists>z. simulator d1 = (simulator ?d)\<lparr>saveNumber := z\<rparr>"
  proof (cases "saveTime ?d - t (simulator ?d) < EPSILON b")
    case True
    with assms obtain s fs where r: "save b (simulator ?d, disk ?d) = Inr (s, fs)"
      and d1: "d1 = ?d\<lparr>saveTime := saveTime ?d + timeBetweenSaves (simulator ?d),
                       simulator := s, disk := fs\<rparr>"
      by (auto simp: schedule_save_def split: sum.splits)
    from save_sim[OF r] d1 show ?thesis by auto
  next
    case False
    with assms have "d1 = ?d" by (simp add: schedule_save_def)
    moreover have "simulator ?d = (simulator ?d)\<lparr>saveNumber := saveNumber (simulator ?d)\<rparr>"
      by simp
    ultimately show ?thesis by metis
  qed
  then show ?thesis unfolding 2 1 by auto
qed

lemma schedule_factor:
  assumes "schedule_save b (schedule_cfl b (schedule_ke b d)) = Inr d1"
  shows "factor d1 =
     (if CFLCheckTime d - t (simulator d) < EPSILON b
      then checkCFL b (psi (simulator d)) (dz (simulator d)) (dx (simulator d))
             (dt (simulator d)) (a (simulator d)) (nN (simulator d))
             (nX (simulator d)) (nZ (simulator d))
      else factor d)"
proof -
  from schedule_ke_sim[of b d] obtain x y
    where 1: "simulator (schedule_ke b d) = (simulator d)\<lparr>kePrev := x, keCurrent := y\<rparr>"
    by blast
  have k: "CFLCheckTime (schedule_ke b d) = CFLCheckTime d" "factor (schedule_ke b d) = factor d"
    by (simp_all add: schedule_ke_def split: prod.splits)
  have s: "factor d1 = factor (schedule_cfl b (schedule_ke b d))"
    using assms by (auto simp: schedule_save_def split: if_splits sum.splits)
  show ?thesis unfolding s by (simp add: schedule_cfl_def k 1)
qed

lemma iteration_step:
  "nonlinear_iteration b d =
     (case schedule_save b (schedule_cfl b (schedule_ke b d)) of
        Inl e \<Rightarrow> Inl e
      | Inr d1 \<Rightarrow>
          (case nonlinear_step b (factor d1) (simulator d1) of
             Inl e \<Rightarrow> Inl e
           | Inr s' \<Rightarrow> Inr (d1\<lparr>simulator := s', factor := 1\<rparr>)))"
  by (simp add: nonlinear_iteration_def nonlinear_step_def bindE_def split: sum.splits)

lemma wf_ke_fields:
  "wf_sim b (s\<lparr>kePrev := x, keCurrent := y, saveNumber := z\<rparr>) = wf_sim b s"
  by (simp add: wf_sim_def)

lemma step_asserts:
  assumes "wf_sim b s" and "nonlinear_step b f s = Inr s'"
  shows "linear_asserts b 0 s
         \<and> update_asserts b f (nonlinear_pure (linear_pure b 0 s))
         \<and> solve_asserts b (update_pure f (nonlinear_pure (linear_pure b 0 s)))"
  using assms(2) unfolding nonlinear_step_iff[OF assms(1)] by (simp split: if_splits)

lemma step_result_clock:
  "t (advance (solve_pure (update_pure f (nonlinear_pure (linear_pure b 0 s))))) = t s + dt s"
  "current (advance (solve_pure (update_pure f (nonlinear_pure (linear_pure b 0 s)))))
     = (current s + 1) mod 2"
proof -
  define s1 where "s1 = linear_pure b 0 s"
  define s2 where "s2 = nonlinear_pure s1"
  define s3 where "s3 = update_pure f s2"
  have e1: "env s1 = env s"
    unfolding s1_def linear_pure_def by (rule env_fold) (simp add: env_linear_assign split: prod.split)
  have e2: "env s2 = env s1" unfolding s2_def by (rule nonlinear_pure_frame(1))
  have e3: "envF s3 = envF s2" unfolding s3_def by (rule envF_update_pure)
  have e4: "envP (solve_pure s3) = envP s3" by (rule envP_solve_pure)
  have "t (solve_pure s3) = t s" "dt (solve_pure s3) = dt s" "current (solve_pure s3) = current s"
    using envP_t[OF e4] envF_t[OF e3] env_t[OF e2] env_t[OF e1]
      envP_dt[OF e4] envF_dt[OF e3] env_dt[OF e2] env_dt[OF e1]
      envP_current[OF e4] envF_current[OF e3] env_current[OF e2] env_current[OF e1]
    by simp_all
  then show "t (advance (solve_pure (update_pure f (nonlinear_pure (linear_pure b 0 s))))) = t s + dt s"
    "current (advance (solve_pure (update_pure f (nonlinear_pure (linear_pure b 0 s)))))
     = (current s + 1) mod 2"
    unfolding s3_def s2_def s1_def by (simp_all add: advance_def)
qed

text \<open>
  Claim C4. Take an iteration of the nonlinear driver on a well-formed simulator. When the checkpoint that is due cannot be written, the iteration ends the run. Otherwise the three conditional statements leave a driver \<open>d1\<close> whose simulator is the one on entry but for the kinetic-energy record and the checkpoint counter, and whose factor is the result of \<^verbatim>\<open>checkCFL\<close> when the check was due and the factor on entry when not. The iteration then completes exactly when the \<^verbatim>\<open>assert\<close>s of the three kernels hold, and its result is, in this order, the linear pass from mode 0 (\<open>linear_pure b 0\<close>, claim C1), the nonlinear pass (\<open>nonlinear_pure\<close>, claim C2), the update with the factor of \<open>d1\<close> (\<open>update_pure\<close>), the Poisson solve (\<open>solve_pure\<close>) and \<open>advance\<close>: \<open>t\<close> has grown by \<open>dt\<close> and \<open>current\<close> is \<open>(current + 1) mod 2\<close>. The factor of the result is 1, so the update of the next iteration has the factor 1 unless its own CFL check is due.
\<close>

theorem nonlinear_iteration_sequence:
  assumes "wf_sim b (simulator d)"
  shows "(\<forall>e. schedule_save b (schedule_cfl b (schedule_ke b d)) = Inl e \<longrightarrow>
            nonlinear_iteration b d = Inl e)
     \<and> (\<forall>d1. schedule_save b (schedule_cfl b (schedule_ke b d)) = Inr d1 \<longrightarrow>
          (\<exists>x y z. simulator d1 = (simulator d)\<lparr>kePrev := x, keCurrent := y, saveNumber := z\<rparr>)
          \<and> factor d1 =
              (if CFLCheckTime d - t (simulator d) < EPSILON b
               then checkCFL b (psi (simulator d)) (dz (simulator d)) (dx (simulator d))
                      (dt (simulator d)) (a (simulator d)) (nN (simulator d))
                      (nX (simulator d)) (nZ (simulator d))
               else factor d)
          \<and> nonlinear_iteration b d =
              (if linear_asserts b 0 (simulator d1)
                  \<and> update_asserts b (factor d1) (nonlinear_pure (linear_pure b 0 (simulator d1)))
                  \<and> solve_asserts b
                      (update_pure (factor d1) (nonlinear_pure (linear_pure b 0 (simulator d1))))
               then Inr (d1\<lparr>simulator :=
                              advance (solve_pure (update_pure (factor d1)
                                (nonlinear_pure (linear_pure b 0 (simulator d1))))),
                            factor := 1\<rparr>)
               else Inl AssertionFailed)
          \<and> t (advance (solve_pure (update_pure (factor d1)
                  (nonlinear_pure (linear_pure b 0 (simulator d1))))))
              = t (simulator d) + dt (simulator d)
          \<and> current (advance (solve_pure (update_pure (factor d1)
                  (nonlinear_pure (linear_pure b 0 (simulator d1))))))
              = (current (simulator d) + 1) mod 2)
     \<and> (\<forall>d' d1'. nonlinear_iteration b d = Inr d' \<and>
            schedule_save b (schedule_cfl b (schedule_ke b d')) = Inr d1' \<longrightarrow>
          factor d' = 1
          \<and> factor d1' =
              (if CFLCheckTime d' - t (simulator d') < EPSILON b
               then checkCFL b (psi (simulator d')) (dz (simulator d')) (dx (simulator d'))
                      (dt (simulator d')) (a (simulator d')) (nN (simulator d'))
                      (nX (simulator d')) (nZ (simulator d'))
               else 1))"
proof (intro conjI allI impI)
  fix e assume "schedule_save b (schedule_cfl b (schedule_ke b d)) = Inl e"
  then show "nonlinear_iteration b d = Inl e" by (simp add: iteration_step)
next
  fix d1 assume s: "schedule_save b (schedule_cfl b (schedule_ke b d)) = Inr d1"
  from schedule_sim[OF s] obtain x y z
    where e: "simulator d1 = (simulator d)\<lparr>kePrev := x, keCurrent := y, saveNumber := z\<rparr>"
    by blast
  then show "\<exists>x y z. simulator d1 = (simulator d)\<lparr>kePrev := x, keCurrent := y, saveNumber := z\<rparr>"
    by blast
  show "factor d1 =
              (if CFLCheckTime d - t (simulator d) < EPSILON b
               then checkCFL b (psi (simulator d)) (dz (simulator d)) (dx (simulator d))
                      (dt (simulator d)) (a (simulator d)) (nN (simulator d))
                      (nX (simulator d)) (nZ (simulator d))
               else factor d)"
    by (rule schedule_factor[OF s])
  have w1: "wf_sim b (simulator d1)" unfolding e wf_ke_fields by (rule assms)
  show "nonlinear_iteration b d =
              (if linear_asserts b 0 (simulator d1)
                  \<and> update_asserts b (factor d1) (nonlinear_pure (linear_pure b 0 (simulator d1)))
                  \<and> solve_asserts b
                      (update_pure (factor d1) (nonlinear_pure (linear_pure b 0 (simulator d1))))
               then Inr (d1\<lparr>simulator :=
                              advance (solve_pure (update_pure (factor d1)
                                (nonlinear_pure (linear_pure b 0 (simulator d1))))),
                            factor := 1\<rparr>)
               else Inl AssertionFailed)"
    unfolding iteration_step s sum.case nonlinear_step_iff[OF w1] by simp
  have c: "t (simulator d1) = t (simulator d)" "dt (simulator d1) = dt (simulator d)"
    "current (simulator d1) = current (simulator d)"
    unfolding e by simp_all
  show "t (advance (solve_pure (update_pure (factor d1)
                  (nonlinear_pure (linear_pure b 0 (simulator d1))))))
              = t (simulator d) + dt (simulator d)"
    unfolding step_result_clock c ..
  show "current (advance (solve_pure (update_pure (factor d1)
                  (nonlinear_pure (linear_pure b 0 (simulator d1))))))
              = (current (simulator d) + 1) mod 2"
    unfolding step_result_clock c ..
next
  fix d' d1'
  assume a: "nonlinear_iteration b d = Inr d' \<and>
            schedule_save b (schedule_cfl b (schedule_ke b d')) = Inr d1'"
  then show f1: "factor d' = 1"
    by (auto simp: iteration_step split: sum.splits)
  show "factor d1' =
              (if CFLCheckTime d' - t (simulator d') < EPSILON b
               then checkCFL b (psi (simulator d')) (dz (simulator d')) (dx (simulator d'))
                      (dt (simulator d')) (a (simulator d')) (nN (simulator d'))
                      (nX (simulator d')) (nZ (simulator d'))
               else 1)"
    using schedule_factor[OF a[THEN conjunct2]] f1 by simp
qed

lemma can_write_append_file [simp]: "can_write (append_file fs name ds) = can_write fs"
  by (simp add: append_file_def)

lemma can_write_fold_append:
  "can_write (fold (\<lambda>n fs. append_file fs (nm n) (ds n)) ns fs) = can_write fs"
  by (induction ns arbitrary: fs) simp_all

lemma can_write_saveKineticEnergy:
  "can_write (snd (saveKineticEnergy b (s, fs))) = can_write fs"
  by (simp add: saveKineticEnergy_def Let_def can_write_fold_append)

lemma ex_schedule:
  "\<exists>d1. schedule_save ex_build (schedule_cfl ex_build (schedule_ke ex_build ex_driver)) = Inr d1
     \<and> simulator d1 = ex_sim\<lparr>kePrev := 0, keCurrent := calcKineticEnergy ex_sim, saveNumber := 1\<rparr>
     \<and> factor d1 = 1 / 2 \<and> saveTime d1 = 1 \<and> KEsaveTime d1 = 1 / 10000 \<and> CFLCheckTime d1 = 1000"
proof -
  obtain s fs where r: "saveKineticEnergy ex_build (ex_sim, ex_fs) = (s, fs)"
    by (cases "saveKineticEnergy ex_build (ex_sim, ex_fs)")
  have s: "s = ex_sim\<lparr>kePrev := keCurrent ex_sim, keCurrent := calcKineticEnergy ex_sim\<rparr>"
    using saveKineticEnergy_sim[of ex_build ex_sim ex_fs] r by simp
  have c: "can_write fs = (\<lambda>name. True)"
    using can_write_saveKineticEnergy[of ex_build ex_sim ex_fs] r by (simp add: ex_fs_def)
  have k0: "keCurrent ex_sim = 0" "saveNumber ex_sim = 0" "timeBetweenSaves ex_sim = 1"
    by (simp_all add: ex_sim_def init_def)
  have e: "0 < EPSILON ex_build" "checkCFL ex_build = (\<lambda>p dz dx dt a nN nX nZ. 1 / 2)"
    by (simp_all add: ex_build_def)
  have ke: "schedule_ke ex_build ex_driver =
      ex_driver\<lparr>simulator := s, disk := fs, KEsaveTime := 1 / 10000\<rparr>"
    using e(1) by (simp add: schedule_ke_def ex_driver_def ex_sim_fields r)
  have ts: "t s = 0" "dt s = 1 / 10" by (simp_all add: s ex_sim_fields)
  have cfl: "schedule_cfl ex_build (schedule_ke ex_build ex_driver) =
      ex_driver\<lparr>simulator := s, disk := fs, KEsaveTime := 1 / 10000,
                CFLCheckTime := 1000, factor := 1 / 2\<rparr>"
    unfolding ke using e by (simp add: schedule_cfl_def ex_driver_def ts)
  have sv: "save ex_build (s, fs) =
      Inr (s\<lparr>saveNumber := saveNumber s + 1\<rparr>,
          write_file fs (saveFolder s @ ''vars'' @ strFromNumber ex_build (saveNumber s) @ ''.dat'')
            (block (tmp s) 0 (nN s * nZ s) @ block (omg s) 0 (nN s * nZ s)
             @ block (psi s) 0 (nN s * nZ s)
             @ block (dTmpdt s) (current s * nZ s * nN s) (nN s * nZ s)
             @ block (dTmpdt s) (((current s + 1) mod 2) * nZ s * nN s) (nN s * nZ s)
             @ block (dOmgdt s) (current s * nZ s * nN s) (nN s * nZ s)
             @ block (dOmgdt s) (((current s + 1) mod 2) * nZ s * nN s) (nN s * nZ s)))"
    by (rule save_ok) (simp add: c)
  let ?d2 = "ex_driver\<lparr>simulator := s, disk := fs, KEsaveTime := 1 / 10000,
                CFLCheckTime := 1000, factor := 1 / 2\<rparr>"
  have d2: "simulator ?d2 = s" "disk ?d2 = fs" "saveTime ?d2 = 0"
    by (simp_all add: ex_driver_def)
  have tb: "timeBetweenSaves s = 1" "saveNumber s = 0" by (simp_all add: s k0)
  have sched: "\<exists>fs'. schedule_save ex_build ?d2 =
      Inr (?d2\<lparr>saveTime := 1, simulator := s\<lparr>saveNumber := 1\<rparr>, disk := fs'\<rparr>)"
    unfolding schedule_save_def d2 sv using e(1) by (simp add: ts tb) (rule exI, rule refl)
  then obtain fs' where sc: "schedule_save ex_build ?d2 =
      Inr (?d2\<lparr>saveTime := 1, simulator := s\<lparr>saveNumber := 1\<rparr>, disk := fs'\<rparr>)" ..
  show ?thesis
    unfolding cfl sc by (simp add: s k0)
qed

lemma ex_sim_ke_step:
  "nonlinear_step ex_build f (ex_sim\<lparr>kePrev := x, keCurrent := y, saveNumber := z\<rparr>) =
     Inr (advance (solve_pure (update_pure f (nonlinear_pure (linear_pure ex_build 0
       (ex_sim\<lparr>kePrev := x, keCurrent := y, saveNumber := z\<rparr>))))))"
proof (rule small_nonlinear_step(2))
  show "wf_sim ex_build (ex_sim\<lparr>kePrev := x, keCurrent := y, saveNumber := z\<rparr>)"
    unfolding wf_ke_fields by (rule ex_sim_wf)
  show "bc_asserts ex_build (ex_sim\<lparr>kePrev := x, keCurrent := y, saveNumber := z\<rparr>)"
    unfolding bc_asserts_def
    by (auto simp: less_2_cases_iff ex_build_def ex_sim_fields)
qed (simp_all add: ex_sim_fields ex_build_def)

lemma ex_schedule_idle:
  "schedule_save ex_build (schedule_cfl ex_build (schedule_ke ex_build ex_driver_idle))
     = Inr ex_driver_idle"
  by (simp add: schedule_save_def schedule_cfl_def schedule_ke_def ex_driver_idle_def
      ex_sim_fields ex_build_def)

lemma ex_schedule_ro:
  "schedule_save ex_build (schedule_cfl ex_build (schedule_ke ex_build ex_driver_ro))
     = Inl (CouldNotOpen ''out/'')"
proof -
  have ro: "\<not> can_write ex_ro name" for name by (simp add: ex_ro_def)
  have e: "0 < EPSILON ex_build" by (simp add: ex_build_def)
  let ?s = "ex_sim\<lparr>kePrev := keCurrent ex_sim, keCurrent := calcKineticEnergy ex_sim\<rparr>"
  have ke: "schedule_ke ex_build ex_driver_ro =
      ex_driver_ro\<lparr>simulator := ?s, disk := ex_ro, KEsaveTime := 1 / 10000\<rparr>"
    using e
    by (simp add: schedule_ke_def ex_driver_ro_def ex_driver_def ex_sim_fields
        saveKineticEnergy_ro[of ex_ro, OF ro])
  have ts: "t ?s = 0" "saveFolder ?s = ''out/''" by (simp_all add: ex_sim_fields ex_sim_def init_def)
  let ?d2 = "schedule_cfl ex_build (schedule_ke ex_build ex_driver_ro)"
  have d2: "simulator ?d2 = ?s" "disk ?d2 = ex_ro" "saveTime ?d2 = 0"
    unfolding ke by (simp_all add: schedule_cfl_def ex_driver_ro_def ex_driver_def)
  show ?thesis
    unfolding schedule_save_def d2 save_fails[of ex_ro, OF ro] using e by (simp add: ts)
qed

lemma schedule_not_due:
  assumes "\<not> CFLCheckTime d - t (simulator d) < EPSILON b"
    and "\<not> saveTime d - t (simulator d) < EPSILON b"
  shows "schedule_save b (schedule_cfl b (schedule_ke b d)) = Inr (schedule_ke b d)"
proof -
  from schedule_ke_sim[of b d] obtain x y
    where 1: "simulator (schedule_ke b d) = (simulator d)\<lparr>kePrev := x, keCurrent := y\<rparr>"
    by blast
  have k: "CFLCheckTime (schedule_ke b d) = CFLCheckTime d" "saveTime (schedule_ke b d) = saveTime d"
    by (simp_all add: schedule_ke_def split: prod.splits)
  have c: "schedule_cfl b (schedule_ke b d) = schedule_ke b d"
    using assms(1) by (simp add: schedule_cfl_def k 1)
  show ?thesis unfolding c using assms(2) by (simp add: schedule_save_def k 1)
qed

text \<open>
  Three iterations on the example simulator at \<open>t = 0\<close>. At the start of a run all three conditional statements are due: the CFL check gives the factor \<open>1/2\<close>, with which the update runs, and the result has the factor 1, \<open>t = 1/10\<close> and \<open>current = 1\<close>. When nothing is due the update runs with the factor 1 of the driver. When the checkpoint is due and cannot be written, the iteration ends the run.
\<close>

theorem nonlinear_iteration_sequence_witness:
  "wf_sim ex_build (simulator ex_driver)
   \<and> (\<exists>d1. schedule_save ex_build (schedule_cfl ex_build (schedule_ke ex_build ex_driver)) = Inr d1
        \<and> simulator d1 =
            ex_sim\<lparr>kePrev := 0, keCurrent := calcKineticEnergy ex_sim, saveNumber := 1\<rparr>
        \<and> factor d1 = 1 / 2
        \<and> nonlinear_iteration ex_build ex_driver =
            Inr (d1\<lparr>simulator :=
                       advance (solve_pure (update_pure (1 / 2)
                         (nonlinear_pure (linear_pure ex_build 0 (simulator d1))))),
                     factor := 1\<rparr>)
        \<and> t (advance (solve_pure (update_pure (1 / 2)
                 (nonlinear_pure (linear_pure ex_build 0 (simulator d1)))))) = 1 / 10
        \<and> current (advance (solve_pure (update_pure (1 / 2)
                 (nonlinear_pure (linear_pure ex_build 0 (simulator d1)))))) = 1)
   \<and> (\<exists>d' d1'. nonlinear_iteration ex_build ex_driver = Inr d'
        \<and> schedule_save ex_build (schedule_cfl ex_build (schedule_ke ex_build d')) = Inr d1'
        \<and> factor d' = 1 \<and> factor d1' = 1)
   \<and> nonlinear_iteration ex_build ex_driver_idle =
        Inr (ex_driver_idle\<lparr>simulator :=
               advance (solve_pure (update_pure 1 (nonlinear_pure (linear_pure ex_build 0 ex_sim)))),
             factor := 1\<rparr>)
   \<and> nonlinear_iteration ex_build ex_driver_ro = Inl (CouldNotOpen ''out/'')"
proof -
  have w: "wf_sim ex_build (simulator ex_driver)" "wf_sim ex_build (simulator ex_driver_idle)"
    "wf_sim ex_build (simulator ex_driver_ro)"
    using ex_sim_wf by (simp_all add: ex_driver_def ex_driver_idle_def ex_driver_ro_def)
  from ex_schedule obtain d1
    where s: "schedule_save ex_build (schedule_cfl ex_build (schedule_ke ex_build ex_driver)) = Inr d1"
      and e: "simulator d1 =
            ex_sim\<lparr>kePrev := 0, keCurrent := calcKineticEnergy ex_sim, saveNumber := 1\<rparr>"
      and f: "factor d1 = 1 / 2" and tm: "saveTime d1 = 1" "CFLCheckTime d1 = 1000"
    by blast
  have w1: "wf_sim ex_build (simulator d1)" unfolding e wf_ke_fields by (rule ex_sim_wf)
  note a1 = step_asserts[OF w1, of "1 / 2", unfolded e, OF ex_sim_ke_step, folded e]
  note T = nonlinear_iteration_sequence[OF w(1), THEN conjunct2, THEN conjunct1, rule_format, OF s]
  have r1: "nonlinear_iteration ex_build ex_driver =
            Inr (d1\<lparr>simulator :=
                       advance (solve_pure (update_pure (1 / 2)
                         (nonlinear_pure (linear_pure ex_build 0 (simulator d1))))),
                     factor := 1\<rparr>)"
    using T[THEN conjunct2, THEN conjunct2, THEN conjunct1] a1 unfolding f by simp
  have c1: "t (advance (solve_pure (update_pure (1 / 2)
                 (nonlinear_pure (linear_pure ex_build 0 (simulator d1)))))) = 1 / 10"
    "current (advance (solve_pure (update_pure (1 / 2)
                 (nonlinear_pure (linear_pure ex_build 0 (simulator d1)))))) = 1"
    using T[THEN conjunct2, THEN conjunct2, THEN conjunct2] unfolding f
    by (simp_all add: ex_driver_def ex_sim_fields)
  have si: "simulator ex_driver_idle = ex_sim" "factor ex_driver_idle = 1"
    by (simp_all add: ex_driver_idle_def)
  note a2 = step_asserts[OF ex_sim_wf ex_sim_nonlinear_step[of 1]]
  have r2: "nonlinear_iteration ex_build ex_driver_idle =
        Inr (ex_driver_idle\<lparr>simulator :=
               advance (solve_pure (update_pure 1 (nonlinear_pure (linear_pure ex_build 0 ex_sim)))),
             factor := 1\<rparr>)"
    using nonlinear_iteration_sequence[OF w(2), THEN conjunct2, THEN conjunct1, rule_format,
        OF ex_schedule_idle, THEN conjunct2, THEN conjunct2, THEN conjunct1] a2
    unfolding si by simp
  have r3: "nonlinear_iteration ex_build ex_driver_ro = Inl (CouldNotOpen ''out/'')"
    by (rule nonlinear_iteration_sequence[OF w(3), THEN conjunct1, rule_format, OF ex_schedule_ro])
  define d' where "d' = d1\<lparr>simulator :=
                       advance (solve_pure (update_pure (1 / 2)
                         (nonlinear_pure (linear_pure ex_build 0 (simulator d1))))),
                     factor := 1\<rparr>"
  have nd: "\<not> CFLCheckTime d' - t (simulator d') < EPSILON ex_build"
    "\<not> saveTime d' - t (simulator d') < EPSILON ex_build"
    by (simp_all add: d'_def c1 tm ex_build_fields)
  note sd = schedule_not_due[OF nd]
  note N = nonlinear_iteration_sequence[OF w(1), THEN conjunct2, THEN conjunct2, rule_format,
      OF conjI[OF r1[folded d'_def] sd]]
  have n1: "factor d' = 1" "factor (schedule_ke ex_build d') = 1"
    using N nd(1) by simp_all
  have r4: "\<exists>d' d1'. nonlinear_iteration ex_build ex_driver = Inr d'
        \<and> schedule_save ex_build (schedule_cfl ex_build (schedule_ke ex_build d')) = Inr d1'
        \<and> factor d' = 1 \<and> factor d1' = 1"
    using r1[folded d'_def] sd n1 by blast
  from w(1) s e f r1 c1 r2 r3 r4 show ?thesis by blast
qed

subsection \<open>The linear driver\<close>

lemma ex_min_run: "runLinear ex_build 0 ex_min = Some (Inl OutOfBounds)"
proof -
  have u: "[0 ..< 3] = [0, Suc 0, 2]" by (simp add: upt_rec)
  have f: "nZ ex_min = 3" "nN ex_min = 1" "dz ex_min = 1 / 2" "tmp ex_min = [0, 0, 0]"
    "omg ex_min = [0, 0, 0]" "xi ex_min = []"
    by (simp_all add: ex_min_def init_def ex_build_fields numeral_3_eq_3)
  have i: "linear_initial ex_build ex_min = ex_min\<lparr>tmpGrad := - 1, tmp := [1, 1 / 2, 0]\<rparr>"
    by (simp add: linear_initial_def initial_row_def ex_build_fields f u Let_def)
  have c: "check_bcs ex_build (ex_min\<lparr>tmpGrad := - 1, tmp := [1, 1 / 2, 0]\<rparr>)
      = Inr (ex_min\<lparr>tmpGrad := - 1, tmp := [1, 1 / 2, 0]\<rparr>)"
    by (simp add: check_bcs_def f bindE_def assert_def ex_build_fields)
  show ?thesis
    unfolding runLinear_def i c
    by (simp add: f store_snapshots_def store_mode_def store_probe_def rd_def bindE_def)
qed

lemma estimate_ok:
  assumes "32 + nCrit * Z < length F" "nCrit < length P"
  shows "estimate F P nCrit Z = Inr (probe_est F P nCrit Z)"
  using assms by (simp add: estimate_def probe_est_def rd_def bindE_def)

lemma store_probe_ok:
  assumes "32 + n * Z < length F" "n < length P"
  shows "store_probe F Z n P = Inr (P[n := F ! (32 + n * Z)])"
  using assms by (simp add: store_probe_def rd_def wr_def bindE_def)

lemma store_probe_Inr:
  "store_probe F Z n P = Inr P' \<Longrightarrow> P' = P[n := F ! (32 + n * Z)]"
  by (auto simp: store_probe_def rd_def wr_def bindE_def split: if_splits)

lemma store_mode_Inr: "store_mode b n st = Inr st' \<Longrightarrow> st' = store_assign b n st"
  by (auto simp: store_mode_def store_assign_def bindE_def split: sum.splits if_splits
      dest!: store_probe_Inr)

lemma store_mode_error: "store_mode b n st = Inl e \<Longrightarrow> e = OutOfBounds"
  by (auto simp: store_mode_def store_probe_def rd_def wr_def bindE_def
      split: sum.splits if_splits)

lemma store_mode_ok:
  assumes "32 + n * nZ (lsim st) < length (tmp (lsim st))" "n < length (tmpPrev st)"
    and "DDC b \<Longrightarrow> 32 + n * nZ (lsim st) < length (xi (lsim st)) \<and> n < length (xiPrev st)"
    and "32 + n * nZ (lsim st) < length (psi (lsim st))" "n < length (psiPrev st)"
    and "32 + n * nZ (lsim st) < length (omg (lsim st))" "n < length (omgPrev st)"
  shows "store_mode b n st = Inr (store_assign b n st)"
  using assms by (simp add: store_mode_def store_assign_def store_probe_ok bindE_def)

lemma store_fold_fields:
  "lsim (fold (store_assign b) ns st) = lsim st"
  "tmpPrev (fold (store_assign b) ns st) =
     fold (\<lambda>n P. P[n := tmp (lsim st) ! (32 + n * nZ (lsim st))]) ns (tmpPrev st)"
  "omgPrev (fold (store_assign b) ns st) =
     fold (\<lambda>n P. P[n := omg (lsim st) ! (32 + n * nZ (lsim st))]) ns (omgPrev st)"
  "psiPrev (fold (store_assign b) ns st) =
     fold (\<lambda>n P. P[n := psi (lsim st) ! (32 + n * nZ (lsim st))]) ns (psiPrev st)"
  "xiPrev (fold (store_assign b) ns st) =
     (if DDC b then fold (\<lambda>n P. P[n := xi (lsim st) ! (32 + n * nZ (lsim st))]) ns (xiPrev st)
      else xiPrev st)"
  "logTmpPrev (fold (store_assign b) ns st) = logTmpPrev st"
  "logXiPrev (fold (store_assign b) ns st) = logXiPrev st"
  "logOmgPrev (fold (store_assign b) ns st) = logOmgPrev st"
  "logPsiPrev (fold (store_assign b) ns st) = logPsiPrev st"
  "steps (fold (store_assign b) ns st) = steps st"
  by (induction ns arbitrary: st; simp add: store_assign_def)+

lemma store_snapshots_Inr:
  "store_snapshots b ns st = Inr st' \<Longrightarrow> st' = fold (store_assign b) ns st"
  unfolding store_snapshots_def
  using forM_Inr_fold[of "store_mode b" "store_assign b" ns st st', OF store_mode_Inr] by simp

lemma store_snapshots_ok:
  assumes "\<And>n. n \<in> set ns \<Longrightarrow>
      32 + n * nZ (lsim st) < length (tmp (lsim st)) \<and> n < length (tmpPrev st)
      \<and> (DDC b \<longrightarrow> 32 + n * nZ (lsim st) < length (xi (lsim st)) \<and> n < length (xiPrev st))
      \<and> 32 + n * nZ (lsim st) < length (psi (lsim st)) \<and> n < length (psiPrev st)
      \<and> 32 + n * nZ (lsim st) < length (omg (lsim st)) \<and> n < length (omgPrev st)"
  shows "store_snapshots b ns st = Inr (fold (store_assign b) ns st)"
  using assms
proof (induction ns arbitrary: st)
  case Nil
  then show ?case by (simp add: store_snapshots_def)
next
  case (Cons n ns)
  have 1: "store_mode b n st = Inr (store_assign b n st)"
    by (rule store_mode_ok) (use Cons.prems[of n] in simp_all)
  have 2: "store_snapshots b ns (store_assign b n st) = Inr (fold (store_assign b) ns (store_assign b n st))"
  proof (rule Cons.IH)
    fix m assume "m \<in> set ns"
    then have "m \<in> set (n # ns)" by simp
    from Cons.prems[OF this]
    show "32 + m * nZ (lsim (store_assign b n st)) < length (tmp (lsim (store_assign b n st)))
        \<and> m < length (tmpPrev (store_assign b n st))
      \<and> (DDC b \<longrightarrow> 32 + m * nZ (lsim (store_assign b n st)) < length (xi (lsim (store_assign b n st)))
           \<and> m < length (xiPrev (store_assign b n st)))
      \<and> 32 + m * nZ (lsim (store_assign b n st)) < length (psi (lsim (store_assign b n st)))
        \<and> m < length (psiPrev (store_assign b n st))
      \<and> 32 + m * nZ (lsim (store_assign b n st)) < length (omg (lsim (store_assign b n st)))
        \<and> m < length (omgPrev (store_assign b n st))"
      by (simp add: store_assign_def)
  qed
  show ?case using 1 2 by (simp add: store_snapshots_def)
qed


lemma length_stored [simp]: "length (stored F Z P) = length P"
  by (simp add: stored_def)

lemma checked_fold:
  "fold (store_assign b) [1 ..< 11]
     (st\<lparr>logTmpPrev := eT, logXiPrev := eX, logOmgPrev := eO, logPsiPrev := eP\<rparr>)
   = st\<lparr>logTmpPrev := eT, logXiPrev := eX, logOmgPrev := eO, logPsiPrev := eP,
        tmpPrev := stored (tmp (lsim st)) (nZ (lsim st)) (tmpPrev st),
        xiPrev := (if DDC b then stored (xi (lsim st)) (nZ (lsim st)) (xiPrev st) else xiPrev st),
        psiPrev := stored (psi (lsim st)) (nZ (lsim st)) (psiPrev st),
        omgPrev := stored (omg (lsim st)) (nZ (lsim st)) (omgPrev st)\<rparr>"
  by (rule lin_state.equality) (simp_all add: store_fold_fields stored_def)

lemma check_converged:
  assumes p: "probes_ok b nCrit st" and c: "converged b nCrit st"
  shows "convergence_check b nCrit st =
           Inr (Inl (probe_est (tmp (lsim st)) (tmpPrev st) nCrit (nZ (lsim st))))"
proof -
  from p have eT: "estimate (tmp (lsim st)) (tmpPrev st) nCrit (nZ (lsim st)) =
        Inr (probe_est (tmp (lsim st)) (tmpPrev st) nCrit (nZ (lsim st)))"
    and eO: "estimate (omg (lsim st)) (omgPrev st) nCrit (nZ (lsim st)) =
        Inr (probe_est (omg (lsim st)) (omgPrev st) nCrit (nZ (lsim st)))"
    and eP: "estimate (psi (lsim st)) (psiPrev st) nCrit (nZ (lsim st)) =
        Inr (probe_est (psi (lsim st)) (psiPrev st) nCrit (nZ (lsim st)))"
    and eX: "DDC b \<Longrightarrow> estimate (xi (lsim st)) (xiPrev st) nCrit (nZ (lsim st)) =
        Inr (probe_est (xi (lsim st)) (xiPrev st) nCrit (nZ (lsim st)))"
    by (simp_all add: probes_ok_def estimate_ok)
  show ?thesis
    using c unfolding convergence_check_def eT eO eP converged_def
    by (cases "DDC b") (simp_all add: eX bindE_def)
qed

lemma check_continues:
  assumes p: "probes_ok b nCrit st" and s: "store_ok b st" and c: "\<not> converged b nCrit st"
  shows "convergence_check b nCrit st = Inr (Inr (checked b nCrit st))"
proof -
  from p have eT: "estimate (tmp (lsim st)) (tmpPrev st) nCrit (nZ (lsim st)) =
        Inr (probe_est (tmp (lsim st)) (tmpPrev st) nCrit (nZ (lsim st)))"
    and eO: "estimate (omg (lsim st)) (omgPrev st) nCrit (nZ (lsim st)) =
        Inr (probe_est (omg (lsim st)) (omgPrev st) nCrit (nZ (lsim st)))"
    and eP: "estimate (psi (lsim st)) (psiPrev st) nCrit (nZ (lsim st)) =
        Inr (probe_est (psi (lsim st)) (psiPrev st) nCrit (nZ (lsim st)))"
    and eX: "DDC b \<Longrightarrow> estimate (xi (lsim st)) (xiPrev st) nCrit (nZ (lsim st)) =
        Inr (probe_est (xi (lsim st)) (xiPrev st) nCrit (nZ (lsim st)))"
    by (simp_all add: probes_ok_def estimate_ok)
  have st: "store_snapshots b [1 ..< 11]
        (st\<lparr>logTmpPrev := eT', logXiPrev := eX', logOmgPrev := eO', logPsiPrev := eP'\<rparr>) =
      Inr (fold (store_assign b) [1 ..< 11]
        (st\<lparr>logTmpPrev := eT', logXiPrev := eX', logOmgPrev := eO', logPsiPrev := eP'\<rparr>))"
    for eT' eX' eO' eP'
  proof (rule store_snapshots_ok)
    fix n :: nat assume "n \<in> set [1 ..< 11]"
    then have n: "n \<le> 10" by simp
    then have le: "32 + n * nZ (lsim st) \<le> 32 + 10 * nZ (lsim st)" by simp
    have b: "32 + n * nZ (lsim st) < L" if "32 + 10 * nZ (lsim st) < L" for L
      using le that by (rule le_less_trans)
    from s n show "32 + n * nZ (lsim (st\<lparr>logTmpPrev := eT', logXiPrev := eX', logOmgPrev := eO', logPsiPrev := eP'\<rparr>))
          < length (tmp (lsim (st\<lparr>logTmpPrev := eT', logXiPrev := eX', logOmgPrev := eO', logPsiPrev := eP'\<rparr>)))
        \<and> n < length (tmpPrev (st\<lparr>logTmpPrev := eT', logXiPrev := eX', logOmgPrev := eO', logPsiPrev := eP'\<rparr>))
      \<and> (DDC b \<longrightarrow> 32 + n * nZ (lsim (st\<lparr>logTmpPrev := eT', logXiPrev := eX', logOmgPrev := eO', logPsiPrev := eP'\<rparr>))
             < length (xi (lsim (st\<lparr>logTmpPrev := eT', logXiPrev := eX', logOmgPrev := eO', logPsiPrev := eP'\<rparr>)))
           \<and> n < length (xiPrev (st\<lparr>logTmpPrev := eT', logXiPrev := eX', logOmgPrev := eO', logPsiPrev := eP'\<rparr>)))
      \<and> 32 + n * nZ (lsim (st\<lparr>logTmpPrev := eT', logXiPrev := eX', logOmgPrev := eO', logPsiPrev := eP'\<rparr>))
          < length (psi (lsim (st\<lparr>logTmpPrev := eT', logXiPrev := eX', logOmgPrev := eO', logPsiPrev := eP'\<rparr>)))
        \<and> n < length (psiPrev (st\<lparr>logTmpPrev := eT', logXiPrev := eX', logOmgPrev := eO', logPsiPrev := eP'\<rparr>))
      \<and> 32 + n * nZ (lsim (st\<lparr>logTmpPrev := eT', logXiPrev := eX', logOmgPrev := eO', logPsiPrev := eP'\<rparr>))
          < length (omg (lsim (st\<lparr>logTmpPrev := eT', logXiPrev := eX', logOmgPrev := eO', logPsiPrev := eP'\<rparr>)))
        \<and> n < length (omgPrev (st\<lparr>logTmpPrev := eT', logXiPrev := eX', logOmgPrev := eO', logPsiPrev := eP'\<rparr>))"
      by (auto simp: store_ok_def intro: b)
  qed
  have k: "bindE (store_snapshots b [1 ..< 11]
        (st\<lparr>logTmpPrev := eT', logXiPrev := eX', logOmgPrev := eO', logPsiPrev := eP'\<rparr>))
        (\<lambda>st. Inr (Inr st)) =
      Inr (Inr (st\<lparr>logTmpPrev := eT', logXiPrev := eX', logOmgPrev := eO', logPsiPrev := eP',
        tmpPrev := stored (tmp (lsim st)) (nZ (lsim st)) (tmpPrev st),
        xiPrev := (if DDC b then stored (xi (lsim st)) (nZ (lsim st)) (xiPrev st) else xiPrev st),
        psiPrev := stored (psi (lsim st)) (nZ (lsim st)) (psiPrev st),
        omgPrev := stored (omg (lsim st)) (nZ (lsim st)) (omgPrev st)\<rparr>))"
    for eT' eX' eO' eP'
    unfolding st checked_fold by (simp add: bindE_def)
  have bi: "bindE (Inr x) f = f x" for x :: ext and f :: "ext \<Rightarrow> error + (ext + lin_state)"
    by (simp add: bindE_def)
  show ?thesis
  proof (cases "DDC b")
    case True
    from c show ?thesis
      by (simp only: convergence_check_def converged_def checked_def True if_True
          eT eO eP eX[OF True] bi k simp_thms if_False)
  next
    case False
    from c show ?thesis
      by (simp only: convergence_check_def converged_def checked_def False if_False
          eT eO eP bi k simp_thms)
  qed
qed

lemma check_Inr:
  assumes "convergence_check b nCrit st = Inr (Inr st')"
  shows "lsim st' = lsim st" "steps st' = steps st"
    "tmpPrev st' = stored (tmp (lsim st)) (nZ (lsim st)) (tmpPrev st)"
    "omgPrev st' = stored (omg (lsim st)) (nZ (lsim st)) (omgPrev st)"
    "psiPrev st' = stored (psi (lsim st)) (nZ (lsim st)) (psiPrev st)"
    "xiPrev st' = (if DDC b then stored (xi (lsim st)) (nZ (lsim st)) (xiPrev st) else xiPrev st)"
proof -
  from assms obtain st0 where r: "store_snapshots b [1 ..< 11] st0 = Inr st'"
    and f: "lsim st0 = lsim st" "steps st0 = steps st" "tmpPrev st0 = tmpPrev st"
      "omgPrev st0 = omgPrev st" "psiPrev st0 = psiPrev st" "xiPrev st0 = xiPrev st"
    unfolding convergence_check_def bindE_def
    by (auto split: sum.splits if_splits)
  note e = store_snapshots_Inr[OF r]
  show "lsim st' = lsim st" "steps st' = steps st"
    "tmpPrev st' = stored (tmp (lsim st)) (nZ (lsim st)) (tmpPrev st)"
    "omgPrev st' = stored (omg (lsim st)) (nZ (lsim st)) (omgPrev st)"
    "psiPrev st' = stored (psi (lsim st)) (nZ (lsim st)) (psiPrev st)"
    "xiPrev st' = (if DDC b then stored (xi (lsim st)) (nZ (lsim st)) (xiPrev st) else xiPrev st)"
    unfolding e by (simp_all add: store_fold_fields f stored_def)
qed

lemma iteration_Inr:
  assumes "linear_iteration b nCrit st = Inr (Inr st')"
  shows "\<exists>st1. (if steps st mod 500 = 0 then convergence_check b nCrit st = Inr (Inr st1)
                 else st1 = st)
           \<and> linear_step b (lsim st1) = Inr (lsim st')
           \<and> st' = st1\<lparr>steps := int32 (steps st1 + 1), lsim := lsim st'\<rparr>"
  using assms unfolding linear_iteration_def bindE_def
  by (auto split: sum.splits if_splits)

lemma linear_step_clock:
  assumes w: "wf_sim b s" and r: "linear_step b s = Inr s'"
  shows "wf_sim b s'" "t s' = t s + dt s" "dt s' = dt s" "totalTime s' = totalTime s"
proof -
  from linear_step_Inr[OF r] obtain s1
    where k: "computeLinearDerivatives b 1 s = Inr s1" and tl: "step_tail b 1 (DDC b) s1 s'"
    by blast
  have e: "env s1 = env s" by (rule env_linear_pass[OF k])
  have w1: "wf_sim b s1" using w wf_shape[OF shape_linear[OF k]] by simp
  note P = step_tail_props[OF w1 tl]
  show "wf_sim b s'" by (rule P(1))
  show "t s' = t s + dt s" using P(4) env_t[OF e] env_dt[OF e] by simp
  show "dt s' = dt s" using P(5) env_dt[OF e] by simp
  show "totalTime s' = totalTime s" using P(6) env_totalTime[OF e] by simp
qed

lemma iteration_clock:
  assumes w: "wf_sim b (lsim st)" and r: "linear_iteration b nCrit st = Inr (Inr st')"
  shows "wf_sim b (lsim st')" "t (lsim st') = t (lsim st) + dt (lsim st)"
    "dt (lsim st') = dt (lsim st)" "totalTime (lsim st') = totalTime (lsim st)"
proof -
  from iteration_Inr[OF r] obtain st1
    where c: "if steps st mod 500 = 0 then convergence_check b nCrit st = Inr (Inr st1)
              else st1 = st"
      and s: "linear_step b (lsim st1) = Inr (lsim st')"
    by blast
  have l: "lsim st1 = lsim st"
    using c check_Inr(1)[of b nCrit st st1] by (cases "steps st mod 500 = 0") simp_all
  note C = linear_step_clock[OF w s[unfolded l]]
  show "wf_sim b (lsim st')" "t (lsim st') = t (lsim st) + dt (lsim st)"
    "dt (lsim st') = dt (lsim st)" "totalTime (lsim st') = totalTime (lsim st)"
    by (rule C)+
qed

lemma linear_loop_terminates:
  assumes "wf_sim b (lsim st)" and "0 < dt (lsim st)"
  shows "\<exists>r. linear_loop b nCrit st = Some r"
  using assms
proof (induction st rule: measure_induct_rule[where
      f = "\<lambda>st. nat \<lceil>(totalTime (lsim st) - t (lsim st)) / dt (lsim st)\<rceil>"])
  case (less st)
  show ?case
  proof (cases "t (lsim st) < totalTime (lsim st)")
    case False
    then show ?thesis by (subst linear_loop.simps) simp
  next
    case True
    show ?thesis
    proof (cases "linear_iteration b nCrit st")
      case (Inl e)
      then show ?thesis using True by (subst linear_loop.simps) simp
    next
      case (Inr r)
      show ?thesis
      proof (cases r)
        case (Inl v)
        then show ?thesis using True Inr by (subst linear_loop.simps) simp
      next
        case st': (Inr st')
        have it: "linear_iteration b nCrit st = Inr (Inr st')" using Inr st' by simp
        note C = iteration_clock[OF less.prems(1) it]
        let ?x = "(totalTime (lsim st) - t (lsim st)) / dt (lsim st)"
        have x: "0 < ?x" using True less.prems(2) by simp
        have "(totalTime (lsim st') - t (lsim st')) / dt (lsim st') = ?x - 1"
          unfolding C using less.prems(2) by (simp add: field_simps)
        moreover have "nat \<lceil>?x - 1\<rceil> < nat \<lceil>?x\<rceil>"
          using x by (simp add: nat_less_iff)
        ultimately have m: "nat \<lceil>(totalTime (lsim st') - t (lsim st')) / dt (lsim st')\<rceil>
            < nat \<lceil>?x\<rceil>" by simp
        have d: "0 < dt (lsim st')" using C(3) less.prems(2) by simp
        from less.IH[OF m C(1) d] obtain r' where "linear_loop b nCrit st' = Some r'" by blast
        then show ?thesis using True it by (subst linear_loop.simps) simp
      qed
    qed
  qed
qed

lemma within_tol_Fin: "within_tol x y tol \<Longrightarrow> \<exists>v. x = Fin v"
  by (cases x; cases y) (simp_all add: within_tol_def)

lemma loop_converged:
  assumes "t (lsim st) < totalTime (lsim st)" and "steps st mod 500 = 0"
    and "probes_ok b nCrit st" and "converged b nCrit st"
  shows "linear_loop b nCrit st =
           Some (Inr (probe_est (tmp (lsim st)) (tmpPrev st) nCrit (nZ (lsim st))))"
  by (subst linear_loop.simps)
     (simp add: assms(1,2) linear_iteration_def check_converged[OF assms(3,4)] bindE_def)

lemma loop_checked:
  assumes "t (lsim st) < totalTime (lsim st)" and "steps st mod 500 = 0"
    and "probes_ok b nCrit st" and "store_ok b st" and "\<not> converged b nCrit st"
  shows "linear_loop b nCrit st =
           (case linear_step b (lsim st) of
              Inl e \<Rightarrow> Some (Inl e)
            | Inr s' \<Rightarrow> linear_loop b nCrit
                ((checked b nCrit st)\<lparr>steps := int32 (steps st + 1), lsim := s'\<rparr>))"
proof -
  have l: "lsim (checked b nCrit st) = lsim st" "steps (checked b nCrit st) = steps st"
    by (simp_all add: checked_def)
  show ?thesis
    by (subst linear_loop.simps)
       (simp add: assms(1,2) linear_iteration_def check_continues[OF assms(3,4,5)] bindE_def l
          split: sum.splits)
qed

lemma loop_unchecked:
  assumes "t (lsim st) < totalTime (lsim st)" and "steps st mod 500 \<noteq> 0"
  shows "linear_loop b nCrit st =
           (case linear_step b (lsim st) of
              Inl e \<Rightarrow> Some (Inl e)
            | Inr s' \<Rightarrow> linear_loop b nCrit (st\<lparr>steps := int32 (steps st + 1), lsim := s'\<rparr>))"
  by (subst linear_loop.simps)
     (simp add: assms linear_iteration_def bindE_def split: sum.splits)



lemma ex_lin_fields:
  "nZ (lsim ex_lin) = 34" "nN (lsim ex_lin) = 12" "tmp (lsim ex_lin) = replicate 408 7"
  "omg (lsim ex_lin) = replicate 408 0" "psi (lsim ex_lin) = replicate 408 0"
  "tmpPrev ex_lin = replicate 12 5" "omgPrev ex_lin = replicate 12 0"
  "psiPrev ex_lin = replicate 12 0" "steps ex_lin = 0"
  "t (lsim ex_lin) = 0" "totalTime (lsim ex_lin) = 1" "dt (lsim ex_lin) = 1 / 10"
  "logTmpPrev ex_lin = Fin 0" "logOmgPrev ex_lin = Fin 0" "logPsiPrev ex_lin = Fin 0"
  by (simp_all add: ex_lin_def init_def)

lemma ex_lin_wf: "wf_sim ex_build (lsim ex_lin)"
  by (simp add: wf_sim_def ex_lin_def init_def ex_build_fields)

lemma ex_lin_ok: "probes_ok ex_build 11 ex_lin" "store_ok ex_build ex_lin"
  "\<not> converged ex_build 11 ex_lin"
  by (simp_all add: probes_ok_def store_ok_def converged_def ex_lin_fields ex_build_fields
      probe_est_def log_abs_def within_tol_def)



lemma ex_conv_fields:
  "nZ (lsim ex_conv) = 34" "nN (lsim ex_conv) = 1" "tmp (lsim ex_conv) = replicate 34 2"
  "omg (lsim ex_conv) = replicate 34 2" "psi (lsim ex_conv) = replicate 34 2"
  "tmpPrev ex_conv = [1]" "omgPrev ex_conv = [1]" "psiPrev ex_conv = [1]" "steps ex_conv = 0"
  "t (lsim ex_conv) = 0" "totalTime (lsim ex_conv) = 1" "dt (lsim ex_conv) = 1 / 10"
  "logTmpPrev ex_conv = Fin (ln 2)" "logOmgPrev ex_conv = Fin (ln 2)"
  "logPsiPrev ex_conv = Fin (ln 2)"
  by (simp_all add: ex_conv_def init_def)

lemma ex_conv_wf: "wf_sim ex_build (lsim ex_conv)"
  by (simp add: wf_sim_def ex_conv_def init_def ex_build_fields)

lemma ex_conv_est:
  "probe_est (tmp (lsim ex_conv)) (tmpPrev ex_conv) 0 (nZ (lsim ex_conv)) = Fin (ln 2)"
  by (simp add: probe_est_def log_abs_def ex_conv_fields)

lemma ex_conv_ok: "probes_ok ex_build 0 ex_conv" "converged ex_build 0 ex_conv"
  by (simp_all add: probes_ok_def converged_def ex_conv_fields ex_build_fields
      probe_est_def log_abs_def within_tol_def)

text \<open>
  Claim C6. The loop of the linear driver on a well-formed simulator with a positive time step always ends. It returns 0, and no error, as soon as \<open>t < totalTime\<close> fails. An iteration whose step counter is a multiple of 500 computes the estimates; when each of them differs from the estimate of the previous check by less than \<open>10\<^sup>-\<^sup>1\<^sup>0\<close> in absolute value, the loop returns the estimate for the temperature, a finite number; when not, it records the estimates and the snapshots and takes an integrator step. An iteration whose step counter is not a multiple of 500 takes the integrator step and makes no check. Every iteration that continues adds one to the step counter. The statements about a check assume that its indices are within the arrays (\<open>probes_ok\<close>, \<open>store_ok\<close>).
\<close>

theorem linear_driver_convergence:
  assumes "wf_sim b (lsim st)" and "0 < dt (lsim st)"
  shows "(\<exists>r. linear_loop b nCrit st = Some r)
     \<and> (\<not> t (lsim st) < totalTime (lsim st) \<longrightarrow> linear_loop b nCrit st = Some (Inr (Fin 0)))
     \<and> (t (lsim st) < totalTime (lsim st) \<and> steps st mod 500 = 0
          \<and> probes_ok b nCrit st \<and> converged b nCrit st \<longrightarrow>
        linear_loop b nCrit st =
          Some (Inr (probe_est (tmp (lsim st)) (tmpPrev st) nCrit (nZ (lsim st))))
        \<and> (\<exists>v. probe_est (tmp (lsim st)) (tmpPrev st) nCrit (nZ (lsim st)) = Fin v))
     \<and> (t (lsim st) < totalTime (lsim st) \<and> steps st mod 500 = 0
          \<and> probes_ok b nCrit st \<and> store_ok b st \<and> \<not> converged b nCrit st \<longrightarrow>
        linear_loop b nCrit st =
          (case linear_step b (lsim st) of
             Inl e \<Rightarrow> Some (Inl e)
           | Inr s' \<Rightarrow> linear_loop b nCrit
               ((checked b nCrit st)\<lparr>steps := int32 (steps st + 1), lsim := s'\<rparr>)))
     \<and> (t (lsim st) < totalTime (lsim st) \<and> steps st mod 500 \<noteq> 0 \<longrightarrow>
        linear_loop b nCrit st =
          (case linear_step b (lsim st) of
             Inl e \<Rightarrow> Some (Inl e)
           | Inr s' \<Rightarrow> linear_loop b nCrit (st\<lparr>steps := int32 (steps st + 1), lsim := s'\<rparr>)))"
proof (intro conjI impI)
  show "\<exists>r. linear_loop b nCrit st = Some r" by (rule linear_loop_terminates[OF assms])
next
  assume "\<not> t (lsim st) < totalTime (lsim st)"
  then show "linear_loop b nCrit st = Some (Inr (Fin 0))"
    by (subst linear_loop.simps) simp
next
  assume a: "t (lsim st) < totalTime (lsim st) \<and> steps st mod 500 = 0
          \<and> probes_ok b nCrit st \<and> converged b nCrit st"
  then show "linear_loop b nCrit st =
          Some (Inr (probe_est (tmp (lsim st)) (tmpPrev st) nCrit (nZ (lsim st))))"
    by (intro loop_converged) simp_all
  from a have "within_tol (probe_est (tmp (lsim st)) (tmpPrev st) nCrit (nZ (lsim st)))
       (logTmpPrev st) (1 / 10 ^ 10)" by (simp add: converged_def)
  then show "\<exists>v. probe_est (tmp (lsim st)) (tmpPrev st) nCrit (nZ (lsim st)) = Fin v"
    by (rule within_tol_Fin)
next
  assume "t (lsim st) < totalTime (lsim st) \<and> steps st mod 500 = 0
          \<and> probes_ok b nCrit st \<and> store_ok b st \<and> \<not> converged b nCrit st"
  then show "linear_loop b nCrit st =
          (case linear_step b (lsim st) of
             Inl e \<Rightarrow> Some (Inl e)
           | Inr s' \<Rightarrow> linear_loop b nCrit
               ((checked b nCrit st)\<lparr>steps := int32 (steps st + 1), lsim := s'\<rparr>))"
    by (intro loop_checked) simp_all
next
  assume "t (lsim st) < totalTime (lsim st) \<and> steps st mod 500 \<noteq> 0"
  then show "linear_loop b nCrit st =
          (case linear_step b (lsim st) of
             Inl e \<Rightarrow> Some (Inl e)
           | Inr s' \<Rightarrow> linear_loop b nCrit (st\<lparr>steps := int32 (steps st + 1), lsim := s'\<rparr>))"
    by (intro loop_unchecked) simp_all
qed

text \<open>
  The loop on four states. At the end of the run it returns 0. At a check whose estimates are those of the previous check it returns the estimate for the temperature, \<open>ln 2\<close>. At a check with \<open>\<psi> = 0\<close> at the probe, whose estimate is not a number, it does not return and goes on with the integrator step. Between two checks it takes the integrator step, and it ends.
\<close>

theorem linear_driver_convergence_witness:
  "wf_sim ex_build (lsim ex_done) \<and> 0 < dt (lsim ex_done)
   \<and> \<not> t (lsim ex_done) < totalTime (lsim ex_done)
   \<and> linear_loop ex_build 0 ex_done = Some (Inr (Fin 0))
   \<and> wf_sim ex_build (lsim ex_conv) \<and> 0 < dt (lsim ex_conv)
   \<and> steps ex_conv mod 500 = 0 \<and> probes_ok ex_build 0 ex_conv \<and> converged ex_build 0 ex_conv
   \<and> linear_loop ex_build 0 ex_conv = Some (Inr (Fin (ln 2)))
   \<and> wf_sim ex_build (lsim ex_lin) \<and> 0 < dt (lsim ex_lin)
   \<and> steps ex_lin mod 500 = 0 \<and> probes_ok ex_build 11 ex_lin \<and> store_ok ex_build ex_lin
   \<and> \<not> converged ex_build 11 ex_lin
   \<and> linear_loop ex_build 11 ex_lin =
       (case linear_step ex_build (lsim ex_lin) of
          Inl e \<Rightarrow> Some (Inl e)
        | Inr s' \<Rightarrow> linear_loop ex_build 11 ((checked ex_build 11 ex_lin)\<lparr>steps := 1, lsim := s'\<rparr>))
   \<and> wf_sim ex_build (lsim ex_mid) \<and> 0 < dt (lsim ex_mid) \<and> steps ex_mid mod 500 \<noteq> 0
   \<and> linear_loop ex_build 0 ex_mid =
       linear_loop ex_build 0 (ex_mid\<lparr>steps := 2,
          lsim := advance (solve_pure (update_pure 1 (linear_assign ex_build 1 1 1 ex_sim)))\<rparr>)
   \<and> (\<exists>r. linear_loop ex_build 0 ex_mid = Some r)"
proof -
  have d: "wf_sim ex_build (lsim ex_done)" "0 < dt (lsim ex_done)"
    "\<not> t (lsim ex_done) < totalTime (lsim ex_done)"
    using ex_sim_wf by (simp_all add: ex_done_def ex_mid_def ex_sim_fields wf_sim_def)
       (simp_all add: ex_sim_def init_def)
  have r1: "linear_loop ex_build 0 ex_done = Some (Inr (Fin 0))"
    using linear_driver_convergence[OF d(1,2), of 0, THEN conjunct2, THEN conjunct1] d(3)
    by simp
  have c: "0 < dt (lsim ex_conv)" "t (lsim ex_conv) < totalTime (lsim ex_conv)"
    "steps ex_conv mod 500 = 0"
    by (simp_all add: ex_conv_fields)
  have r2: "linear_loop ex_build 0 ex_conv = Some (Inr (Fin (ln 2)))"
    using linear_driver_convergence[OF ex_conv_wf c(1), of 0,
        THEN conjunct2, THEN conjunct2, THEN conjunct1] c(2,3) ex_conv_ok
    by (simp add: ex_conv_est)
  have l: "0 < dt (lsim ex_lin)" "t (lsim ex_lin) < totalTime (lsim ex_lin)"
    "steps ex_lin mod 500 = 0"
    by (simp_all add: ex_lin_fields)
  have i1: "int32 (steps ex_lin + 1) = 1" by (simp add: ex_lin_fields int32_def)
  have r3: "linear_loop ex_build 11 ex_lin =
       (case linear_step ex_build (lsim ex_lin) of
          Inl e \<Rightarrow> Some (Inl e)
        | Inr s' \<Rightarrow> linear_loop ex_build 11 ((checked ex_build 11 ex_lin)\<lparr>steps := 1, lsim := s'\<rparr>))"
    using linear_driver_convergence[OF ex_lin_wf l(1), of 11,
        THEN conjunct2, THEN conjunct2, THEN conjunct2, THEN conjunct1, unfolded i1]
      l(2,3) ex_lin_ok
    by simp
  have m: "wf_sim ex_build (lsim ex_mid)" "0 < dt (lsim ex_mid)"
    "t (lsim ex_mid) < totalTime (lsim ex_mid)" "steps ex_mid mod 500 \<noteq> 0"
    "lsim ex_mid = ex_sim" "steps ex_mid = 1"
    using ex_sim_wf by (simp_all add: ex_mid_def ex_sim_fields) (simp add: ex_sim_def init_def)
  have i2: "int32 (steps ex_mid + 1) = 2" by (simp add: ex_mid_def int32_def)
  have r4: "linear_loop ex_build 0 ex_mid =
       linear_loop ex_build 0 (ex_mid\<lparr>steps := 2,
          lsim := advance (solve_pure (update_pure 1 (linear_assign ex_build 1 1 1 ex_sim)))\<rparr>)"
    using linear_driver_convergence[OF m(1,2), of 0,
        THEN conjunct2, THEN conjunct2, THEN conjunct2, THEN conjunct2, unfolded m(5) ex_sim_step i2]
      m(3,4)
    by (simp add: m(5))
  have r5: "\<exists>r. linear_loop ex_build 0 ex_mid = Some r"
    by (rule linear_driver_convergence[OF m(1,2), THEN conjunct1])
  from d r1 ex_conv_wf c ex_conv_ok r2 ex_lin_wf l ex_lin_ok r3 m(1,2,4) r4 r5
  show ?thesis by simp
qed

lemma forM_error:
  assumes "\<And>x s e. body x s = Inl e \<Longrightarrow> e = E"
  shows "forM xs body s = Inl e \<Longrightarrow> e = E"
proof (induction xs arbitrary: s)
  case Nil
  then show ?case by simp
next
  case (Cons x xs)
  show ?case
  proof (cases "body x s")
    case (Inl e')
    with Cons.prems assms[OF Inl] show ?thesis by simp
  next
    case (Inr s')
    with Cons.prems have "forM xs body s' = Inl e" by simp
    then show ?thesis by (rule Cons.IH)
  qed
qed

lemma check_bcs_result:
  "check_bcs b s = Inr s' \<Longrightarrow> s' = s"
  "check_bcs b s = Inl e \<Longrightarrow> e = AssertionFailed"
proof -
  let ?body = "\<lambda>n s.
       bindE (if 0 < n then assert (tmp s ! (n * nZ s) < EPSILON b) s
              else assert (tmp s ! (n * nZ s) - 1 < EPSILON b) s) (\<lambda>s.
       bindE (assert (tmp s ! (n * nZ s + nZ s - 1) < EPSILON b) s) (\<lambda>s.
       bindE (assert (omg s ! (n * nZ s) < EPSILON b) s) (\<lambda>s.
       assert (omg s ! (n * nZ s + nZ s - 1) < EPSILON b) s)))"
  have 1: "?body n u = Inr u' \<Longrightarrow> u' = (\<lambda>n u. u) n u" for n u u'
    by (auto simp: bindE_def assert_def split: if_splits)
  have 2: "?body n u = Inl e \<Longrightarrow> e = AssertionFailed" for n u e
    by (auto simp: bindE_def assert_def split: if_splits)
  have f: "fold (\<lambda>n u. u) ns u = u" for ns :: "nat list" and u :: Sim
    by (induction ns) simp_all
  show "check_bcs b s = Inr s' \<Longrightarrow> s' = s"
    unfolding check_bcs_def
    using forM_Inr_fold[of ?body "\<lambda>n u. u" "[0 ..< nN s]" s s', OF 1] by (simp add: f)
  show "check_bcs b s = Inl e \<Longrightarrow> e = AssertionFailed"
    unfolding check_bcs_def by (rule forM_error[of ?body, OF 2])
qed

lemma initial_row_shape:
  "nZ (initial_row b k s) = nZ s" "nN (initial_row b k s) = nN s"
  "length (tmp (initial_row b k s)) = length (tmp s)"
  by (simp_all add: initial_row_def Let_def)

lemma linear_initial_shape:
  "nZ (linear_initial b s) = nZ s" "nN (linear_initial b s) = nN s"
  "length (tmp (linear_initial b s)) = length (tmp s)"
proof -
  have "nZ (fold (initial_row b) ks u) = nZ u \<and> nN (fold (initial_row b) ks u) = nN u
      \<and> length (tmp (fold (initial_row b) ks u)) = length (tmp u)" for ks u
    by (induction ks arbitrary: u) (simp_all add: initial_row_shape)
  then show "nZ (linear_initial b s) = nZ s" "nN (linear_initial b s) = nN s"
    "length (tmp (linear_initial b s)) = length (tmp s)"
    by (simp_all add: linear_initial_def Let_def)
qed

lemma store_snapshots_small:
  assumes l: "length (tmp (lsim st)) = nN (lsim st) * nZ (lsim st)"
    and N: "1 \<le> nN (lsim st)" and Z: "nZ (lsim st) \<le> 32"
  shows "store_snapshots b [0 ..< nN (lsim st)] st = Inl OutOfBounds"
proof -
  obtain m where m: "nN (lsim st) = Suc m" using N by (cases "nN (lsim st)") simp_all
  have oob: "store_mode b m st1 = Inl OutOfBounds" if "lsim st1 = lsim st" for st1
  proof -
    have "Suc m * nZ (lsim st) \<le> 32 + m * nZ (lsim st)" using Z by simp
    then have "\<not> 32 + m * nZ (lsim st) < length (tmp (lsim st))" unfolding l m by simp
    then show ?thesis
      by (simp add: store_mode_def store_probe_def rd_def bindE_def that)
  qed
  show ?thesis
  proof (cases "forM [0 ..< m] (store_mode b) st")
    case (Inl e)
    from forM_error[of "store_mode b", OF store_mode_error Inl] Inl
    show ?thesis by (simp add: store_snapshots_def m forM_append bindE_def)
  next
    case (Inr st1)
    from store_snapshots_Inr[OF Inr[folded store_snapshots_def]]
    have "lsim st1 = lsim st" by (simp add: store_fold_fields)
    from oob[OF this] Inr show ?thesis
      by (simp add: store_snapshots_def m forM_append bindE_def)
  qed
qed

lemma runLinear_small_grid:
  assumes w: "wf_sim b s" and Z: "nZ s \<le> 32"
  shows "runLinear b nCrit s = Some (Inl AssertionFailed)
       \<or> runLinear b nCrit s = Some (Inl OutOfBounds)"
proof (cases "check_bcs b (linear_initial b s)")
  case (Inl e)
  from check_bcs_result(2)[OF Inl] Inl show ?thesis by (simp add: runLinear_def)
next
  case (Inr s1)
  from check_bcs_result(1)[OF Inr] have s1: "s1 = linear_initial b s" .
  have f: "nZ s1 = nZ s" "nN s1 = nN s" "length (tmp s1) = nN s * nZ s"
    using w unfolding s1 by (simp_all add: linear_initial_shape wf_sim_def)
  have N: "1 \<le> nN s" using w by (simp add: wf_sim_def)
  let ?st = "\<lparr> lsim = s1, tmpPrev = replicate (nN s1) 0,
                    xiPrev = (if DDC b then replicate (nN s1) 0 else []),
                    omgPrev = replicate (nN s1) 0, psiPrev = replicate (nN s1) 0,
                    logTmpPrev = Fin 0, logXiPrev = Fin 0, logOmgPrev = Fin 0,
                    logPsiPrev = Fin 0, steps = 0 \<rparr>"
  have "store_snapshots b [0 ..< nN (lsim ?st)] ?st = Inl OutOfBounds"
    by (rule store_snapshots_small) (use N in \<open>simp_all add: f Z\<close>)
  then show ?thesis using Inr by (simp add: runLinear_def)
qed

lemma bindE_fold_Inl:
  "fold (\<lambda>n r. bindE r (f n)) ns (Inl e) = Inl e"
  by (induction ns) (simp_all add: bindE_def)

text \<open>
  Claim C9, what the source does on the smallest valid grid, three rows and one mode: the linear driver reads \<^verbatim>\<open>tmp[32]\<close> of an array of three elements when it fills the snapshot arrays, and \<^verbatim>\<open>Sim::printBenchmarkData\<close> does so in its first row. The same happens on every well-formed grid of at most 32 rows (\<open>runLinear_small_grid\<close>).
\<close>

theorem probe_index_out_of_range:
  "runLinear ex_build 0 ex_min = Some (Inl OutOfBounds)
   \<and> printBenchmarkData ex_min = Inl OutOfBounds"
proof
  show "runLinear ex_build 0 ex_min = Some (Inl OutOfBounds)" by (rule ex_min_run)
  have u: "[0 ..< 21] = 0 # [1 ..< 21]" by (simp add: upt_rec)
  have f: "nZ ex_min = 3" "length (tmp ex_min) = 3"
    by (simp_all add: ex_min_def init_def)
  have 1: "bindE (Inr []) (\<lambda>rows.
             bindE (rd (tmp ex_min) (0 * nZ ex_min + 32)) (\<lambda>x.
             bindE (rd (omg ex_min) (0 * nZ ex_min + 32)) (\<lambda>y.
             bindE (rd (psi ex_min) (0 * nZ ex_min + 32)) (\<lambda>z.
             Inr (rows @ [(x, y, z)]))))) = (Inl OutOfBounds :: error + (real \<times> real \<times> real) list)"
    by (simp add: bindE_def rd_def f)
  show "printBenchmarkData ex_min = Inl OutOfBounds"
    unfolding printBenchmarkData_def u fold_simps 1 by (rule bindE_fold_Inl)
qed

lemma shape_initial_row: "shape (initial_row b k s) = shape s" "dt (initial_row b k s) = dt s"
  by (simp_all add: initial_row_def shape_def Let_def)

lemma shape_linear_initial:
  "shape (linear_initial b s) = shape s" "dt (linear_initial b s) = dt s"
proof -
  have "shape (fold (initial_row b) ks u) = shape u \<and> dt (fold (initial_row b) ks u) = dt u"
    for ks u
    by (induction ks arbitrary: u) (simp_all add: shape_initial_row)
  moreover have "shape (s\<lparr>tmpGrad := x, xiGrad := y\<rparr>) = shape s" for x y
    by (simp add: shape_def)
  moreover have "shape (s\<lparr>tmpGrad := x\<rparr>) = shape s" for x
    by (simp add: shape_def)
  ultimately show "shape (linear_initial b s) = shape s" "dt (linear_initial b s) = dt s"
    by (simp_all add: linear_initial_def Let_def)
qed

lemma runLinear_terminates:
  assumes w: "wf_sim b s" and d: "0 < dt s"
  shows "\<exists>r. runLinear b nCrit s = Some r"
proof (cases "check_bcs b (linear_initial b s)")
  case (Inl e)
  then show ?thesis by (simp add: runLinear_def)
next
  case (Inr s1)
  from check_bcs_result(1)[OF Inr] have s1: "s1 = linear_initial b s" .
  have w1: "wf_sim b s1" unfolding s1 using w wf_shape[OF shape_linear_initial(1)] by simp
  have d1: "0 < dt s1" unfolding s1 shape_linear_initial(2) by (rule d)
  let ?st = "\<lparr> lsim = s1, tmpPrev = replicate (nN s1) 0,
                    xiPrev = (if DDC b then replicate (nN s1) 0 else []),
                    omgPrev = replicate (nN s1) 0, psiPrev = replicate (nN s1) 0,
                    logTmpPrev = Fin 0, logXiPrev = Fin 0, logOmgPrev = Fin 0,
                    logPsiPrev = Fin 0, steps = 0 \<rparr>"
  show ?thesis
  proof (cases "store_snapshots b [0 ..< nN s1] ?st")
    case (Inl e)
    then show ?thesis using Inr by (simp add: runLinear_def)
  next
    case st: (Inr st)
    from store_snapshots_Inr[OF st] have l: "lsim st = s1" by (simp add: store_fold_fields)
    let ?st' = "st\<lparr>lsim := (lsim st)\<lparr>current := 0, t := 0\<rparr>\<rparr>"
    have w2: "wf_sim b (lsim ?st')" using w1 by (simp add: l wf_sim_def)
    have d2: "0 < dt (lsim ?st')" using d1 by (simp add: l)
    from linear_loop_terminates[OF w2 d2, of nCrit] Inr st show ?thesis
      by (simp add: runLinear_def)
  qed
qed

end
